theory Spec2Isabelle
  imports Main "HOL-Library.Sublist"
begin

section \<open>JavaScript string and array primitives used by the plugin\<close>

text \<open>
  Strings are lists of characters. The plugin only calls \<^verbatim>\<open>lastIndexOf\<close> with a
  one-character search string, so the search argument is a character. As in JavaScript
  the result is \<open>-1\<close> when the character does not occur.
\<close>

fun lastIndexOf :: "string \<Rightarrow> char \<Rightarrow> int" where
  "lastIndexOf [] c = - 1"
| "lastIndexOf (x # xs) c =
     (let r = lastIndexOf xs c in if 0 \<le> r then r + 1 else if x = c then 0 else - 1)"

text \<open>
  \<^verbatim>\<open>String.prototype.substring(a, b)\<close>: both arguments are clamped to \<open>[0, length]\<close> and
  swapped when \<open>a > b\<close>.
\<close>

definition substring :: "string \<Rightarrow> int \<Rightarrow> int \<Rightarrow> string" where
  "substring s a b =
     (let n = int (length s);
          a' = max 0 (min a n);
          b' = max 0 (min b n);
          lo = min a' b';
          hi = max a' b'
      in take (nat (hi - lo)) (drop (nat lo) s))"

text \<open>
  \<^verbatim>\<open>String.prototype.slice(a, b)\<close>: a negative argument counts from the end of the string,
  there is no swap, and an empty range gives the empty string.
\<close>

definition slice :: "string \<Rightarrow> int \<Rightarrow> int \<Rightarrow> string" where
  "slice s a b =
     (let n = int (length s);
          lo = (if a < 0 then max (n + a) 0 else min a n);
          hi = (if b < 0 then max (n + b) 0 else min b n)
      in take (nat (hi - lo)) (drop (nat lo) s))"

text \<open>
  \<^verbatim>\<open>Array.prototype.splice(start, 0, item)\<close>, the only form the plugin uses: insert one
  item at \<open>start\<close>, where a negative \<open>start\<close> counts from the end.
\<close>

definition splice :: "'a list \<Rightarrow> int \<Rightarrow> 'a \<Rightarrow> 'a list" where
  "splice xs start item =
     (let n = int (length xs);
          k = nat (if start < 0 then max (n + start) 0 else min start n)
      in take k xs @ [item] @ drop k xs)"

text \<open>
  The decimal numeral a template literal produces for an array index
  (\<^verbatim>\<open>`${i}`\<close> with \<open>i\<close> a non-negative integer).
\<close>

definition digitChar :: "nat \<Rightarrow> char" where
  "digitChar d = ''0123456789'' ! d"

fun numToString :: "nat \<Rightarrow> string" where
  "numToString n =
     (if n < 10 then [digitChar n] else numToString (n div 10) @ [digitChar (n mod 10)])"

declare numToString.simps [simp del]

section \<open>Data model\<close>

text \<open>
  \<^verbatim>\<open>MergeStrategy = "merge" | "split" | "both"\<close>.
\<close>

datatype MergeStrategy = Merge | Split | Both

text \<open>
  \<^verbatim>\<open>DefaultSchemaElement = { type, content, id }\<close>. The field \<^verbatim>\<open>type\<close> is declared a
  string, but \<^verbatim>\<open>visitChildren\<close> fills it with \<^verbatim>\<open>(parent as Element).tagName\<close>, which is
  \<^verbatim>\<open>undefined\<close> when the parent is the document root; \<open>None\<close> stands for
  \<^verbatim>\<open>undefined\<close>. The field names carry a suffix because \<open>id\<close> is a HOL constant and
  \<open>content\<close> is also a field of \<^verbatim>\<open>NodeContent\<close>.
\<close>

record DefaultSchemaElement =
  type_r :: "string option"
  content_r :: string
  id_r :: string

text \<open>\<^verbatim>\<open>NodeContent = { tag, raw, content }\<close>, the view handed to a transform function.\<close>

record NodeContent =
  tag :: string
  raw :: string
  content :: string

text \<open>
  \<^verbatim>\<open>PopulateOptions\<close>. Every field is optional in the source; an absent
  \<^verbatim>\<open>options\<close> object is the record with every field \<open>None\<close>.
\<close>

record PopulateOptions =
  transformFn :: "(NodeContent \<Rightarrow> NodeContent) option"
  mergeStrategy :: "MergeStrategy option"
  basePath :: "string option"

text \<open>
  The \<^verbatim>\<open>hast\<close> syntax tree: \<^verbatim>\<open>Content = Element | Text | Comment | DocType\<close>. An element
  carries its tag name, its properties (never inspected by the plugin) and its children.
\<close>

datatype node =
    Text string
  | Element string "(string \<times> string) list" "node list"
  | Comment string
  | Doctype

datatype Root = Root "node list"

text \<open>
  The four \<^verbatim>\<open>hast-util-*\<close> functions the plugin imports are external; they are
  parameters of the model. \<open>fromHtml\<close> stands for
  \<^verbatim>\<open>fromHtml(raw, {fragment: true}).children\<close>.
\<close>

record hastLib =
  toHtml :: "node \<Rightarrow> string"
  fromHtml :: "string \<Rightarrow> node list"
  toString :: "node \<Rightarrow> string"
  fromString :: "node \<Rightarrow> string \<Rightarrow> node"

text \<open>The only exception the walk itself can raise: a property read on \<^verbatim>\<open>undefined\<close>.\<close>

datatype error = TypeError

section \<open>The record merger\<close>

definition pathWithoutLastIndex :: "string \<Rightarrow> string" where
  "pathWithoutLastIndex path =
     (let lastBracket = lastIndexOf path (CHR ''['') in slice path 0 lastBracket)"

definition isRecordMergeable :: "string \<Rightarrow> string option \<Rightarrow> DefaultSchemaElement list \<Rightarrow> bool" where
  "isRecordMergeable path tg records =
     (if length records = 0 then False
      else
        (let lastRecord = records ! (length records - 1);
             parentPath = pathWithoutLastIndex path;
             lastPath = pathWithoutLastIndex (id_r lastRecord)
         in parentPath = lastPath \<and> tg = type_r lastRecord))"

text \<open>
  \<^verbatim>\<open>records[records.length - 1].content += ` ${content}` \<close> updates the last record in
  place; on an empty array the read of \<^verbatim>\<open>.content\<close> on \<^verbatim>\<open>undefined\<close> throws.
\<close>

definition addContentToLastRecord ::
  "DefaultSchemaElement list \<Rightarrow> string \<Rightarrow> error + DefaultSchemaElement list" where
  "addContentToLastRecord records cont =
     (if records = [] then Inl TypeError
      else
        (let k = length records - 1;
             r = records ! k
         in Inr (records[k := r\<lparr>content_r := content_r r @ '' '' @ cont\<rparr>])))"

text \<open>
  \<^verbatim>\<open>addRecords\<close> mutates the array it is given; the model returns the new array. In the
  \<^verbatim>\<open>both\<close> branch the source pushes \<^verbatim>\<open>newRecord\<close> and a fresh copy
  \<^verbatim>\<open>{ ...newRecord }\<close>, two distinct objects, so a later in-place update of one does not
  show in the other and lists of values describe the array exactly.
\<close>

definition addRecords ::
  "string \<Rightarrow> string option \<Rightarrow> string \<Rightarrow> DefaultSchemaElement list \<Rightarrow> MergeStrategy
     \<Rightarrow> error + DefaultSchemaElement list" where
  "addRecords cont tp path records strategy =
     (let parentPath = substring path 0 (lastIndexOf path (CHR ''.''));
          newRecord = \<lparr>type_r = tp, content_r = cont, id_r = parentPath\<rparr>
      in case strategy of
           Merge \<Rightarrow>
             if \<not> isRecordMergeable parentPath tp records then Inr (records @ [newRecord])
             else addContentToLastRecord records cont
         | Split \<Rightarrow> Inr (records @ [newRecord])
         | Both \<Rightarrow>
             if \<not> isRecordMergeable parentPath tp records
             then Inr (records @ [newRecord, newRecord])
             else addContentToLastRecord
                    (splice records (int (length records) - 1) newRecord) cont)"

section \<open>The node transformer\<close>

fun prepareNode :: "hastLib \<Rightarrow> node \<Rightarrow> NodeContent" where
  "prepareNode lib (Element tagName props children) =
     \<lparr>tag = tagName,
      raw = toHtml lib (Element tagName props children),
      content = toString lib (Element tagName props children)\<rparr>"

text \<open>
  \<^verbatim>\<open>applyChanges\<close> is typed on elements and only ever receives one. The result is
  \<open>None\<close> when \<^verbatim>\<open>fromHtml(...).children[0]\<close> is \<^verbatim>\<open>undefined\<close>, that is when the
  re-parsed fragment is empty. The assignment \<^verbatim>\<open>node.tagName = transformedNode.tag\<close>
  happens before \<^verbatim>\<open>toString(node)\<close> is read.
\<close>

fun applyChanges :: "hastLib \<Rightarrow> node \<Rightarrow> NodeContent \<Rightarrow> node option" where
  "applyChanges lib (Element tagName props children) transformedNode =
     (if toHtml lib (Element tagName props children) \<noteq> raw transformedNode
      then (case fromHtml lib (raw transformedNode) of [] \<Rightarrow> None | first # _ \<Rightarrow> Some first)
      else
        (let renamed = Element (tag transformedNode) props children
         in if toString lib renamed \<noteq> content transformedNode
            then Some (fromString lib renamed (content transformedNode))
            else Some renamed))"

definition applyTransform ::
  "hastLib \<Rightarrow> node \<Rightarrow> (NodeContent \<Rightarrow> NodeContent) \<Rightarrow> node option" where
  "applyTransform lib nd f =
     (let preparedNode = prepareNode lib nd;
          transformedNode = f preparedNode
      in applyChanges lib nd transformedNode)"

section \<open>The tree walker\<close>

text \<open>
  A transform function can make the walk recurse without end (a function that always
  answers with the same markup is applied again to the children of every re-parsed node;
  in JavaScript the call stack overflows), so the walk takes fuel: one unit per level of
  recursion, \<open>None\<close> when it runs out. Of the parent
  only \<^verbatim>\<open>tagName\<close> is read, so the parent is passed as its tag name (\<open>None\<close> for the
  root, which has none). Reading \<^verbatim>\<open>.children\<close> of \<^verbatim>\<open>undefined\<close>, or calling
  \<^verbatim>\<open>.forEach\<close> on the missing \<^verbatim>\<open>children\<close> of a reconciled node that is not an
  element, throws.
\<close>

fun visitChildren ::
  "nat \<Rightarrow> hastLib \<Rightarrow> node \<Rightarrow> string option \<Rightarrow> string \<Rightarrow> DefaultSchemaElement list
     \<Rightarrow> PopulateOptions \<Rightarrow> (error + DefaultSchemaElement list) option"
and forEachChild ::
  "nat \<Rightarrow> hastLib \<Rightarrow> node list \<Rightarrow> string \<Rightarrow> string \<Rightarrow> nat \<Rightarrow> DefaultSchemaElement list
     \<Rightarrow> PopulateOptions \<Rightarrow> (error + DefaultSchemaElement list) option"
where
  "visitChildren 0 lib nd parentTag path records options = None"
| "visitChildren (Suc fuel) lib nd parentTag path records options =
     (case nd of
        Text v \<Rightarrow>
          Some (addRecords v parentTag path records
                  (case mergeStrategy options of None \<Rightarrow> Merge | Some s \<Rightarrow> s))
      | Comment _ \<Rightarrow> Some (Inr records)
      | Doctype \<Rightarrow> Some (Inr records)
      | Element _ _ _ \<Rightarrow>
          (case (case transformFn options of
                   Some f \<Rightarrow> applyTransform lib nd f
                 | None \<Rightarrow> Some nd) of
             Some (Element tagName props children) \<Rightarrow>
               forEachChild fuel lib children tagName path 0 records options
           | _ \<Rightarrow> Some (Inl TypeError)))"
| "forEachChild fuel lib [] tagName path i records options = Some (Inr records)"
| "forEachChild fuel lib (child # rest) tagName path i records options =
     (case visitChildren fuel lib child (Some tagName)
             (path @ ''.'' @ tagName @ ''['' @ numToString i @ '']'') records options of
        Some (Inr records') \<Rightarrow> forEachChild fuel lib rest tagName path (Suc i) records' options
      | failed \<Rightarrow> failed)"

text \<open>
  The loop of \<^verbatim>\<open>rehypeLyra\<close> over the root's children: child \<open>i\<close> is visited with the
  root as parent and the path \<^verbatim>\<open>`${options?.basePath ?? ""}root[${i}]`\<close>.
\<close>

fun forEachRoot ::
  "nat \<Rightarrow> hastLib \<Rightarrow> node list \<Rightarrow> nat \<Rightarrow> DefaultSchemaElement list \<Rightarrow> PopulateOptions
     \<Rightarrow> (error + DefaultSchemaElement list) option" where
  "forEachRoot fuel lib [] i records options = Some (Inr records)"
| "forEachRoot fuel lib (child # rest) i records options =
     (case visitChildren fuel lib child None
             ((case basePath options of None \<Rightarrow> [] | Some b \<Rightarrow> b)
                @ ''root['' @ numToString i @ '']'') records options of
        Some (Inr records') \<Rightarrow> forEachRoot fuel lib rest (Suc i) records' options
      | failed \<Rightarrow> failed)"

fun rehypeLyra ::
  "nat \<Rightarrow> hastLib \<Rightarrow> DefaultSchemaElement list \<Rightarrow> PopulateOptions \<Rightarrow> Root
     \<Rightarrow> (error + DefaultSchemaElement list) option" where
  "rehypeLyra fuel lib records options (Root children) =
     forEachRoot fuel lib children 0 records options"

section \<open>The population orchestrator\<close>

text \<open>
  \<^verbatim>\<open>populate\<close> is an \<^verbatim>\<open>async\<close> function: its result is a promise, fulfilled with the
  returned value or rejected with the error thrown. The value is \<open>None\<close> for
  \<^verbatim>\<open>undefined\<close> (the \<^verbatim>\<open>void\<close> of \<^verbatim>\<open>insertBatch\<close>).
\<close>

datatype 'a promise = Fulfilled 'a | Rejected string

text \<open>
  The collaborators of \<^verbatim>\<open>populate\<close> and \<^verbatim>\<open>populateFromFile\<close> are external (the
  \<^verbatim>\<open>unified\<close> pipelines, the file system and the search index) and are parameters:
  \<^item> \<open>runMd\<close> is the awaited Markdown pipeline ending in \<^verbatim>\<open>rehypeLyra\<close>: the records it
    collects, or the error it throws;
  \<^item> \<open>runHtml\<close> is the HTML pipeline, whose promise the source neither awaits nor
    returns: the records present when \<^verbatim>\<open>insertBatch\<close> is called;
  \<^item> \<open>insertBatch\<close> is the index insertion: the new index, or the error it rejects with;
  \<^item> \<open>readFile\<close> gives the file's data, or the error it rejects with.
\<close>

record 'db populateEnv =
  runMd :: "string \<Rightarrow> PopulateOptions \<Rightarrow> string + DefaultSchemaElement list"
  runHtml :: "string \<Rightarrow> PopulateOptions \<Rightarrow> DefaultSchemaElement list"
  insertBatch :: "'db \<Rightarrow> DefaultSchemaElement list \<Rightarrow> string + 'db"
  readFile :: "string \<Rightarrow> string + string"

text \<open>
  The \<^verbatim>\<open>switch (fileType)\<close> of \<^verbatim>\<open>populate\<close>. The result is the promise and the index
  after the call. The \<^verbatim>\<open>default\<close> branch is \<^verbatim>\<open>return fileType\<close>.
\<close>

definition populate ::
  "'db populateEnv \<Rightarrow> 'db \<Rightarrow> string \<Rightarrow> string \<Rightarrow> PopulateOptions
     \<Rightarrow> string option promise \<times> 'db" where
  "populate env db data fileType options =
     (if fileType = ''md'' then
        (case runMd env data options of
           Inl e \<Rightarrow> (Rejected e, db)
         | Inr records \<Rightarrow>
             (case insertBatch env db records of
                Inl e \<Rightarrow> (Rejected e, db)
              | Inr db' \<Rightarrow> (Fulfilled None, db')))
      else if fileType = ''html'' then
        (case insertBatch env db (runHtml env data options) of
           Inl e \<Rightarrow> (Rejected e, db)
         | Inr db' \<Rightarrow> (Fulfilled None, db'))
      else (Fulfilled (Some fileType), db))"

text \<open>
  \<^verbatim>\<open>populateFromFile\<close>: the file type is
  \<^verbatim>\<open>filename.slice(filename.lastIndexOf(".") + 1)\<close>, cast to \<^verbatim>\<open>FileType\<close> without a
  check, and the base path is the file name followed by a slash.
\<close>

definition populateFromFile ::
  "'db populateEnv \<Rightarrow> 'db \<Rightarrow> string \<Rightarrow> PopulateOptions \<Rightarrow> string option promise \<times> 'db" where
  "populateFromFile env db filename options =
     (case readFile env filename of
        Inl e \<Rightarrow> (Rejected e, db)
      | Inr data \<Rightarrow>
          (let fileType = slice filename (lastIndexOf filename (CHR ''.'') + 1)
                            (int (length filename))
           in populate env db data fileType (options\<lparr>basePath := Some (filename @ ''/'')\<rparr>)))"

section \<open>Notions used to state the properties\<close>

text \<open>The value of the local variable \<^verbatim>\<open>parentPath\<close> of \<^verbatim>\<open>addRecords\<close>.\<close>

abbreviation parentPathOf :: "string \<Rightarrow> string" where
  "parentPathOf path \<equiv> substring path 0 (lastIndexOf path (CHR ''.''))"

text \<open>The strategy \<^verbatim>\<open>visitChildren\<close> passes on: \<^verbatim>\<open>options?.mergeStrategy ?? "merge"\<close>.\<close>

abbreviation strategyOf :: "PopulateOptions \<Rightarrow> MergeStrategy" where
  "strategyOf options \<equiv> (case mergeStrategy options of None \<Rightarrow> Merge | Some s \<Rightarrow> s)"

text \<open>The prefix of the root paths: \<^verbatim>\<open>options?.basePath ?? ""\<close>.\<close>

abbreviation basePathOf :: "PopulateOptions \<Rightarrow> string" where
  "basePathOf options \<equiv> (case basePath options of None \<Rightarrow> [] | Some b \<Rightarrow> b)"

text \<open>
  A text visit is one call of \<^verbatim>\<open>addRecords\<close> by the walk: the text node's value, the
  tag name of its parent and its path. The following functions follow the recursion of
  \<open>visitChildren\<close>, \<open>forEachChild\<close> and \<open>forEachRoot\<close> and list the text
  visits in the order the walk makes them, instead of performing them.
\<close>

type_synonym textVisit = "string \<times> string option \<times> string"

fun textVisits ::
  "nat \<Rightarrow> hastLib \<Rightarrow> node \<Rightarrow> string option \<Rightarrow> string \<Rightarrow> PopulateOptions
     \<Rightarrow> (error + textVisit list) option"
and childTextVisits ::
  "nat \<Rightarrow> hastLib \<Rightarrow> node list \<Rightarrow> string \<Rightarrow> string \<Rightarrow> nat \<Rightarrow> PopulateOptions
     \<Rightarrow> (error + textVisit list) option"
where
  "textVisits 0 lib nd parentTag path options = None"
| "textVisits (Suc fuel) lib nd parentTag path options =
     (case nd of
        Text v \<Rightarrow> Some (Inr [(v, parentTag, path)])
      | Comment _ \<Rightarrow> Some (Inr [])
      | Doctype \<Rightarrow> Some (Inr [])
      | Element _ _ _ \<Rightarrow>
          (case (case transformFn options of
                   Some f \<Rightarrow> applyTransform lib nd f
                 | None \<Rightarrow> Some nd) of
             Some (Element tagName props children) \<Rightarrow>
               childTextVisits fuel lib children tagName path 0 options
           | _ \<Rightarrow> Some (Inl TypeError)))"
| "childTextVisits fuel lib [] tagName path i options = Some (Inr [])"
| "childTextVisits fuel lib (child # rest) tagName path i options =
     (case textVisits fuel lib child (Some tagName)
             (path @ ''.'' @ tagName @ ''['' @ numToString i @ '']'') options of
        Some (Inr vs) \<Rightarrow>
          (case childTextVisits fuel lib rest tagName path (Suc i) options of
             Some (Inr ws) \<Rightarrow> Some (Inr (vs @ ws))
           | failed \<Rightarrow> failed)
      | failed \<Rightarrow> failed)"

fun rootTextVisits ::
  "nat \<Rightarrow> hastLib \<Rightarrow> node list \<Rightarrow> nat \<Rightarrow> PopulateOptions
     \<Rightarrow> (error + textVisit list) option" where
  "rootTextVisits fuel lib [] i options = Some (Inr [])"
| "rootTextVisits fuel lib (child # rest) i options =
     (case textVisits fuel lib child None
             (basePathOf options @ ''root['' @ numToString i @ '']'') options of
        Some (Inr vs) \<Rightarrow>
          (case rootTextVisits fuel lib rest (Suc i) options of
             Some (Inr ws) \<Rightarrow> Some (Inr (vs @ ws))
           | failed \<Rightarrow> failed)
      | failed \<Rightarrow> failed)"

fun treeTextVisits ::
  "nat \<Rightarrow> hastLib \<Rightarrow> PopulateOptions \<Rightarrow> Root \<Rightarrow> (error + textVisit list) option" where
  "treeTextVisits fuel lib options (Root children) = rootTextVisits fuel lib children 0 options"

text \<open>Performing a list of text visits in order, stopping at the first exception.\<close>

fun addAll ::
  "MergeStrategy \<Rightarrow> textVisit list \<Rightarrow> DefaultSchemaElement list
     \<Rightarrow> error + DefaultSchemaElement list" where
  "addAll strategy [] records = Inr records"
| "addAll strategy ((cont, tp, path) # rest) records =
     (case addRecords cont tp path records strategy of
        Inr records' \<Rightarrow> addAll strategy rest records'
      | Inl e \<Rightarrow> Inl e)"

text \<open>The number of text nodes of a tree, and the depth of a tree.\<close>

fun countTexts :: "node \<Rightarrow> nat" where
  "countTexts (Text v) = 1"
| "countTexts (Element tagName props children) = sum_list (map countTexts children)"
| "countTexts (Comment c) = 0"
| "countTexts Doctype = 0"

fun depth :: "node \<Rightarrow> nat" where
  "depth (Element tagName props children) = Suc (foldr max (map depth children) 0)"
| "depth (Text v) = Suc 0"
| "depth (Comment c) = Suc 0"
| "depth Doctype = Suc 0"

text \<open>The record \<^verbatim>\<open>addRecords\<close> builds for a text visit (its \<^verbatim>\<open>newRecord\<close>).\<close>

definition newRecordOf :: "textVisit \<Rightarrow> DefaultSchemaElement" where
  "newRecordOf visit =
     (case visit of (cont, tp, path) \<Rightarrow>
        \<lparr>type_r = tp, content_r = cont, id_r = parentPathOf path\<rparr>)"

text \<open>Text count and depth of a whole document.\<close>

fun countTextsRoot :: "Root \<Rightarrow> nat" where
  "countTextsRoot (Root children) = sum_list (map countTexts children)"

fun depthRoot :: "Root \<Rightarrow> nat" where
  "depthRoot (Root children) = foldr max (map depth children) 0"

text \<open>
  The text nodes a record originates from. Text visits are numbered from \<open>0\<close> in the
  order the walk makes them. Beside the record list runs a list of the same length that
  holds, for each record, the numbers of the text visits whose text went into it:
  \<open>addOrigins\<close> has the branches of \<^verbatim>\<open>addRecords\<close>, and where \<^verbatim>\<open>addRecords\<close> pushes,
  inserts or extends a record it pushes, inserts or extends the origins of that record.
  \<open>originsAll\<close> runs it along \<open>addAll\<close>. That this bookkeeping is right is the
  content of \<open>carries\<close>: the record's content is the texts of its origins, in order,
  joined by single spaces, and its type and id are those of the first of them.
\<close>

fun joinSpace :: "string list \<Rightarrow> string" where
  "joinSpace [] = []"
| "joinSpace [x] = x"
| "joinSpace (x # y # ys) = x @ '' '' @ joinSpace (y # ys)"

definition addOrigins ::
  "nat \<Rightarrow> string option \<Rightarrow> string \<Rightarrow> DefaultSchemaElement list \<Rightarrow> MergeStrategy
     \<Rightarrow> nat list list \<Rightarrow> nat list list" where
  "addOrigins k tp path records strategy origins =
     (case strategy of
        Merge \<Rightarrow>
          if \<not> isRecordMergeable (parentPathOf path) tp records then origins @ [[k]]
          else butlast origins @ [last origins @ [k]]
      | Split \<Rightarrow> origins @ [[k]]
      | Both \<Rightarrow>
          if \<not> isRecordMergeable (parentPathOf path) tp records then origins @ [[k], [k]]
          else butlast origins @ [[k], last origins @ [k]])"

fun originsAll ::
  "MergeStrategy \<Rightarrow> nat \<Rightarrow> textVisit list \<Rightarrow> DefaultSchemaElement list \<Rightarrow> nat list list
     \<Rightarrow> nat list list" where
  "originsAll strategy k [] records origins = origins"
| "originsAll strategy k ((cont, tp, path) # rest) records origins =
     (case addRecords cont tp path records strategy of
        Inr records' \<Rightarrow>
          originsAll strategy (Suc k) rest records'
            (addOrigins k tp path records strategy origins)
      | Inl e \<Rightarrow> origins)"

definition carries :: "textVisit list \<Rightarrow> DefaultSchemaElement \<Rightarrow> nat list \<Rightarrow> bool" where
  "carries visits r origin =
     (origin \<noteq> []
      \<and> (\<forall>k \<in> set origin. k < length visits)
      \<and> content_r r = joinSpace (map (\<lambda>k. fst (visits ! k)) origin)
      \<and> type_r r = fst (snd (visits ! hd origin))
      \<and> id_r r = parentPathOf (snd (snd (visits ! hd origin))))"

text \<open>
  Two records in visitation order, the first one earlier in the list: every text of the
  first was visited no later than some text of the second, and when the two records share
  no text node, every text of the first was visited before every text of the second.
  \<open>allBefore\<close> is the second condition without the proviso.
\<close>

definition inVisitOrder :: "nat list \<Rightarrow> nat list \<Rightarrow> bool" where
  "inVisitOrder o1 o2 =
     ((\<forall>a \<in> set o1. \<exists>b \<in> set o2. a \<le> b)
      \<and> (set o1 \<inter> set o2 = {} \<longrightarrow> (\<forall>a \<in> set o1. \<forall>b \<in> set o2. a < b)))"

definition allBefore :: "nat list \<Rightarrow> nat list \<Rightarrow> bool" where
  "allBefore o1 o2 = (\<forall>a \<in> set o1. \<forall>b \<in> set o2. a < b)"

text \<open>
  The order of a whole record list, read off its origins: whenever a text of one record
  was visited before a text of another record, the first record is no later in the list.
\<close>

definition inTextOrder :: "nat list list \<Rightarrow> bool" where
  "inTextOrder origins =
     (\<forall>i < length origins. \<forall>j < length origins.
        \<forall>a \<in> set (origins ! i). \<forall>b \<in> set (origins ! j). a < b \<longrightarrow> i \<le> j)"


text \<open>
  Paths in the words of the specification: the path of the child at sibling index \<open>i\<close>
  of a node with path \<open>p\<close> and tag \<open>t\<close> is \<open>p.t[i]\<close>, and the path of the
  top-level child \<open>i\<close> of the root is the base path followed by \<open>root[i]\<close>.
  \<open>pathVisits\<close> lists the text nodes of a tree, depth first and left to right, each
  with the tag of its parent and the path it gets by these two rules alone;
  \<open>natOfDecimal\<close> reads a decimal numeral.
\<close>

definition childPath :: "string \<Rightarrow> string \<Rightarrow> nat \<Rightarrow> string" where
  "childPath parentPath parentTag i = parentPath @ ''.'' @ parentTag @ ''['' @ numToString i @ '']''"

definition rootPath :: "string \<Rightarrow> nat \<Rightarrow> string" where
  "rootPath base i = base @ ''root['' @ numToString i @ '']''"

function pathVisits :: "node \<Rightarrow> string option \<Rightarrow> string \<Rightarrow> textVisit list" where
  "pathVisits (Text v) parentTag path = [(v, parentTag, path)]"
| "pathVisits (Element t ps cs) parentTag path =
     concat (map (\<lambda>i. pathVisits (cs ! i) (Some t) (childPath path t i)) [0..<length cs])"
| "pathVisits (Comment c) parentTag path = []"
| "pathVisits Doctype parentTag path = []"
  by pat_completeness auto
termination
proof (relation "measure (\<lambda>(nd, parentTag, path). size nd)")
  show "wf (measure (\<lambda>(nd, parentTag, path). size nd))" by simp
next
  fix t :: string and ps :: "(string \<times> string) list" and cs :: "node list"
    and parentTag :: "string option" and path :: string and i :: nat
  assume "i \<in> set [0..<length cs]"
  then have "cs ! i \<in> set cs" by simp
  then have "size (cs ! i) \<le> size_list size cs"
    by (rule size_list_estimation') simp
  then show "((cs ! i, Some t, childPath path t i), (Element t ps cs, parentTag, path))
               \<in> measure (\<lambda>(nd, parentTag, path). size nd)"
    by simp
qed

fun rootPathVisits :: "string \<Rightarrow> Root \<Rightarrow> textVisit list" where
  "rootPathVisits base (Root cs) =
     concat (map (\<lambda>i. pathVisits (cs ! i) None (rootPath base i)) [0..<length cs])"

definition natOfDecimal :: "string \<Rightarrow> nat" where
  "natOfDecimal s = foldl (\<lambda>a c. 10 * a + (of_char c - 48)) 0 s"

section \<open>Example inputs\<close>

text \<open>
  A small instance of the external \<^verbatim>\<open>hast-util-*\<close> functions, used only to run the model
  on concrete inputs: a serializer without attributes or escaping, the flattened text of
  a node, the replacement of an element's children by one text node, and a parser that
  knows a single fragment.
\<close>

fun exampleToHtml :: "node \<Rightarrow> string" where
  "exampleToHtml (Text v) = v"
| "exampleToHtml (Element tagName props children) =
     ''<'' @ tagName @ ''>'' @ concat (map exampleToHtml children) @ ''</'' @ tagName @ ''>''"
| "exampleToHtml (Comment c) = ''<!--'' @ c @ ''-->''"
| "exampleToHtml Doctype = ''<!doctype html>''"

fun exampleToString :: "node \<Rightarrow> string" where
  "exampleToString (Text v) = v"
| "exampleToString (Element tagName props children) = concat (map exampleToString children)"
| "exampleToString (Comment c) = []"
| "exampleToString Doctype = []"

fun exampleFromString :: "node \<Rightarrow> string \<Rightarrow> node" where
  "exampleFromString (Element tagName props children) v = Element tagName props [Text v]"
| "exampleFromString nd v = nd"

definition exampleFromHtml :: "string \<Rightarrow> node list" where
  "exampleFromHtml s =
     (if s = ''<div><p>Hello</p></div>''
      then [Element ''div'' [] [Element ''p'' [] [Text ''Hello'']]]
      else [])"

definition exampleLib :: hastLib where
  "exampleLib =
     \<lparr>toHtml = exampleToHtml, fromHtml = exampleFromHtml,
      toString = exampleToString, fromString = exampleFromString\<rparr>"

definition noOptions :: PopulateOptions where
  "noOptions = \<lparr>transformFn = None, mergeStrategy = None, basePath = None\<rparr>"

definition twoParagraphs :: "string \<Rightarrow> string \<Rightarrow> Root" where
  "twoParagraphs A B =
     Root [Element ''div'' [] [Element ''p'' [] [Text A], Element ''p'' [] [Text B]]]"

text \<open>
  An instance of the collaborators of \<^verbatim>\<open>populate\<close> whose pipelines collect nothing and
  whose index is the list of inserted records.
\<close>

definition exampleEnv :: "DefaultSchemaElement list populateEnv" where
  "exampleEnv =
     \<lparr>runMd = (\<lambda>data options. Inr []),
      runHtml = (\<lambda>data options. []),
      insertBatch = (\<lambda>db records. Inr (db @ records)),
      readFile = (\<lambda>filename. Inr ''plain text'')\<rparr>"

text \<open>A document with three paragraphs in one container, a comment between them.\<close>

definition threeTexts :: Root where
  "threeTexts =
     Root [Doctype,
           Element ''div'' []
             [Element ''p'' [] [Text ''A''], Element ''p'' [] [Text ''B''], Comment ''c'',
              Element ''p'' [] [Text ''C'']]]"

text \<open>
  The transform function and page of the repository's test of a changed \<open>raw\<close>, and a
  transform function that answers every element with the same markup.
\<close>

definition headingToDiv :: "NodeContent \<Rightarrow> NodeContent" where
  "headingToDiv n =
     (if tag n = ''h1''
      then \<lparr>tag = ''h2'', raw = ''<div><p>Hello</p></div>'', content = ''New content''\<rparr>
      else n)"

definition headingPage :: Root where
  "headingPage =
     Root [Element ''html'' []
             [Element ''head'' [] [], Element ''body'' [] [Element ''h1'' [] [Text ''Heading'']]]]"

definition alwaysDiv :: "NodeContent \<Rightarrow> NodeContent" where
  "alwaysDiv n = n\<lparr>raw := ''<div><p>Hello</p></div>''\<rparr>"

text \<open>
  The transform function of the repository's tag test with the new tag as a parameter,
  and a document with a text node directly under the root.
\<close>

definition renameHeading :: "string \<Rightarrow> NodeContent \<Rightarrow> NodeContent" where
  "renameHeading newTag n = (if tag n = ''h1'' then n\<lparr>tag := newTag\<rparr> else n)"

definition rootTextPage :: Root where
  "rootTextPage = Root [Doctype, Text ''hi'', Element ''p'' [] [Text ''A'']]"

section \<open>Facts about the string primitives\<close>

lemma lastIndexOf_bounds: "- 1 \<le> lastIndexOf xs c \<and> lastIndexOf xs c < int (length xs)"
  by (induction xs) (auto simp: Let_def)

lemma lastIndexOf_notin: "c \<notin> set xs \<Longrightarrow> lastIndexOf xs c = - 1"
  by (induction xs) (auto simp: Let_def)

lemma lastIndexOf_in: "c \<in> set xs \<Longrightarrow> 0 \<le> lastIndexOf xs c"
  by (induction xs) (auto simp: Let_def)

lemma lastIndexOf_append:
  "lastIndexOf (xs @ ys) c =
     (if c \<in> set ys then int (length xs) + lastIndexOf ys c else lastIndexOf xs c)"
proof (induction xs)
  case Nil
  then show ?case by (simp add: lastIndexOf_notin)
next
  case (Cons x xs)
  then show ?case
    using lastIndexOf_in [of c ys] by (auto simp: Let_def)
qed

lemma lastIndexOf_last_occurrence:
  "c \<notin> set ys \<Longrightarrow> lastIndexOf (xs @ c # ys) c = int (length xs)"
  by (simp add: lastIndexOf_append lastIndexOf_notin Let_def)

lemma substring_0: "substring s 0 k = take (nat k) s"
  by (auto simp: substring_def Let_def min_def max_def)

lemma slice_0:
  "slice s 0 k = (if k < 0 then take (nat (int (length s) + k)) s else take (nat k) s)"
  by (auto simp: slice_def Let_def min_def max_def)

lemma digitChar_cases:
  "d < 10 \<Longrightarrow> digitChar d \<in> set ''0123456789''"
  unfolding digitChar_def by (rule nth_mem) simp

lemma numToString_digits: "set (numToString n) \<subseteq> set ''0123456789''"
proof (induction n rule: numToString.induct)
  case (1 n)
  show ?case
  proof (cases "n < 10")
    case True
    then show ?thesis
      using digitChar_cases [of n] by (subst numToString.simps) simp
  next
    case False
    have "n mod 10 < 10" by simp
    from digitChar_cases [OF this] 1 [OF False] False show ?thesis
      by (subst numToString.simps) simp
  qed
qed

lemma numToString_no_dot: "CHR ''.'' \<notin> set (numToString n)"
  using numToString_digits [of n] by auto

lemma numToString_no_bracket: "CHR ''['' \<notin> set (numToString n)"
  using numToString_digits [of n] by auto

lemma pathWithoutLastIndex_indexed:
  "pathWithoutLastIndex (p @ ''['' @ numToString i @ '']'') = p"
proof -
  have "CHR ''['' \<notin> set (numToString i @ '']'')"
    using numToString_no_bracket [of i] by simp
  then have "lastIndexOf (p @ CHR ''['' # (numToString i @ '']'')) (CHR ''['') = int (length p)"
    by (rule lastIndexOf_last_occurrence)
  then show ?thesis
    by (simp add: pathWithoutLastIndex_def slice_0)
qed

lemma pathWithoutLastIndex_no_bracket:
  "CHR ''['' \<notin> set path \<Longrightarrow> pathWithoutLastIndex path = butlast path"
proof -
  assume "CHR ''['' \<notin> set path"
  then have "lastIndexOf path (CHR ''['') = - 1"
    by (rule lastIndexOf_notin)
  moreover have "nat (int (length path) + - 1) = length path - 1"
    by arith
  ultimately show ?thesis
    by (simp add: pathWithoutLastIndex_def slice_0 butlast_conv_take)
qed

lemma parentPath_child:
  assumes "CHR ''.'' \<notin> set seg"
  shows "parentPathOf (q @ ''.'' @ seg @ ''['' @ numToString i @ '']'') = q"
proof -
  have "CHR ''.'' \<notin> set (seg @ ''['' @ numToString i @ '']'')"
    using assms numToString_no_dot [of i] by simp
  then have "lastIndexOf (q @ CHR ''.'' # (seg @ ''['' @ numToString i @ '']'')) (CHR ''.'') = int (length q)"
    by (rule lastIndexOf_last_occurrence)
  then show ?thesis
    by (simp add: substring_0)
qed

lemma list_update_last: "xs \<noteq> [] \<Longrightarrow> xs[length xs - Suc 0 := x] = butlast xs @ [x]"
  by (induction xs rule: rev_induct) (simp_all add: list_update_append)

lemma splice_before_last:
  "xs \<noteq> [] \<Longrightarrow> splice xs (int (length xs) - 1) x = butlast xs @ [x, last xs]"
  by (induction xs rule: rev_induct) (auto simp: splice_def Let_def)

lemma isRecordMergeable_nonempty: "isRecordMergeable path tg records \<Longrightarrow> records \<noteq> []"
  by (auto simp: isRecordMergeable_def)

lemma addContentToLastRecord_nonempty:
  "records \<noteq> [] \<Longrightarrow>
   addContentToLastRecord records cont =
     Inr (butlast records @ [(last records)\<lparr>content_r := content_r (last records) @ '' '' @ cont\<rparr>])"
  by (simp add: addContentToLastRecord_def Let_def list_update_last last_conv_nth)

lemma addRecords_Merge_mergeable:
  "isRecordMergeable (parentPathOf path) tp records \<Longrightarrow>
   addRecords cont tp path records Merge =
     Inr (butlast records @ [(last records)\<lparr>content_r := content_r (last records) @ '' '' @ cont\<rparr>])"
  by (simp add: addRecords_def Let_def addContentToLastRecord_nonempty isRecordMergeable_nonempty)

lemma addRecords_Merge_new:
  "\<not> isRecordMergeable (parentPathOf path) tp records \<Longrightarrow>
   addRecords cont tp path records Merge =
     Inr (records @ [\<lparr>type_r = tp, content_r = cont, id_r = parentPathOf path\<rparr>])"
  by (simp add: addRecords_def Let_def)

lemma addRecords_Split: 
   "addRecords cont tp path records Split =
     Inr (records @ [\<lparr>type_r = tp, content_r = cont, id_r = parentPathOf path\<rparr>])"
  by (simp add: addRecords_def Let_def)

lemma addRecords_Both_mergeable:
  "isRecordMergeable (parentPathOf path) tp records \<Longrightarrow>
   addRecords cont tp path records Both =
     Inr (butlast records @ [\<lparr>type_r = tp, content_r = cont, id_r = parentPathOf path\<rparr>,
            (last records)\<lparr>content_r := content_r (last records) @ '' '' @ cont\<rparr>])"
  by (frule isRecordMergeable_nonempty)
     (simp add: addRecords_def Let_def splice_before_last addContentToLastRecord_nonempty butlast_append)

lemma addRecords_Both_new:
  "\<not> isRecordMergeable (parentPathOf path) tp records \<Longrightarrow>
   addRecords cont tp path records Both =
     Inr (records @ [\<lparr>type_r = tp, content_r = cont, id_r = parentPathOf path\<rparr>,
                     \<lparr>type_r = tp, content_r = cont, id_r = parentPathOf path\<rparr>])"
  by (simp add: addRecords_def Let_def)

lemma addRecords_total: "\<exists>records'. addRecords cont tp path records strategy = Inr records'"
proof (cases "isRecordMergeable (parentPathOf path) tp records")
  case True
  then show ?thesis
    by (cases strategy)
       (simp_all add: addRecords_Merge_mergeable addRecords_Split addRecords_Both_mergeable)
next
  case False
  then show ?thesis
    by (cases strategy)
       (simp_all add: addRecords_Merge_new addRecords_Split addRecords_Both_new)
qed

lemma addAll_append:
  "addAll s (vs @ ws) records =
     (case addAll s vs records of Inr records' \<Rightarrow> addAll s ws records' | Inl e \<Rightarrow> Inl e)"
  by (induction vs arbitrary: records) (auto split: sum.splits)

lemma addAll_total: "\<exists>records'. addAll s vs records = Inr records'"
proof (induction vs arbitrary: records)
  case Nil
  then show ?case by simp
next
  case (Cons v vs)
  obtain cont tp path where v: "v = (cont, tp, path)" by (cases v)
  obtain r1 where "addRecords cont tp path records s = Inr r1"
    using addRecords_total by blast
  with Cons [of r1] v show ?case by simp
qed

lemma visit_link:
  "visitChildren fuel lib nd parentTag path records options =
     (case textVisits fuel lib nd parentTag path options of
        None \<Rightarrow> None
      | Some (Inl e) \<Rightarrow> Some (Inl e)
      | Some (Inr vs) \<Rightarrow> Some (addAll (strategyOf options) vs records))"
  and forEachChild_link:
  "forEachChild fuel lib children tagName path i records options =
     (case childTextVisits fuel lib children tagName path i options of
        None \<Rightarrow> None
      | Some (Inl e) \<Rightarrow> Some (Inl e)
      | Some (Inr vs) \<Rightarrow> Some (addAll (strategyOf options) vs records))"
proof (induction fuel lib nd parentTag path records options
         and fuel lib children tagName path i records options
       rule: visitChildren_forEachChild.induct)
  case (1 lib nd parentTag path records options)
  show ?case by simp
next
  case (2 fuel lib nd parentTag path records options)
  show ?case
  proof (cases nd)
    case (Text v)
    obtain r where "addRecords v parentTag path records (strategyOf options) = Inr r"
      using addRecords_total by blast
    with Text show ?thesis by simp
  next
    case (Element t ps cs)
    let ?r = "case transformFn options of
                Some f \<Rightarrow> applyTransform lib (Element t ps cs) f
              | None \<Rightarrow> Some (Element t ps cs)"
    show ?thesis
    proof (cases ?r)
      case None
      with Element show ?thesis by simp
    next
      case (Some nd')
      show ?thesis
      proof (cases nd')
        case inner: (Element t' ps' cs')
        have "forEachChild fuel lib cs' t' path 0 records options =
                (case childTextVisits fuel lib cs' t' path 0 options of
                   None \<Rightarrow> None
                 | Some (Inl e) \<Rightarrow> Some (Inl e)
                 | Some (Inr vs) \<Rightarrow> Some (addAll (strategyOf options) vs records))"
        proof -
          have r: "(case transformFn options of
                      None \<Rightarrow> Some nd
                    | Some f \<Rightarrow> applyTransform lib nd f) = Some nd'"
            using Some Element by (simp split: option.splits)
          show ?thesis by (rule 2 [OF Element r inner])
        qed
        then show ?thesis
          using Element Some inner by simp
      qed (use Element Some in simp_all)
    qed
  qed simp_all
next
  case (3 fuel lib tagName path i records options)
  show ?case by simp
next
  case (4 fuel lib child rest tagName path i records options)
  let ?p = "path @ ''.'' @ tagName @ ''['' @ numToString i @ '']''"
  show ?case
  proof (cases "textVisits fuel lib child (Some tagName) ?p options")
    case None
    with 4(1) show ?thesis by simp
  next
    case (Some res)
    show ?thesis
    proof (cases res)
      case (Inl e)
      with Some 4(1) show ?thesis by simp
    next
      case (Inr vs)
      obtain r1 where r1: "addAll (strategyOf options) vs records = Inr r1"
        using addAll_total by blast
      have v: "visitChildren fuel lib child (Some tagName) ?p records options = Some (Inr r1)"
        using 4(1) Some Inr r1 by simp
      have "forEachChild fuel lib rest tagName path (Suc i) r1 options =
              (case childTextVisits fuel lib rest tagName path (Suc i) options of
                 None \<Rightarrow> None
               | Some (Inl e) \<Rightarrow> Some (Inl e)
               | Some (Inr ws) \<Rightarrow> Some (addAll (strategyOf options) ws r1))"
        using 4(2) [OF v] by simp
      then show ?thesis
        using v Some Inr r1
        by (auto simp: addAll_append split: option.splits sum.splits)
    qed
  qed
qed

lemmas run_simps =
  noOptions_def twoParagraphs_def addRecords_def isRecordMergeable_def pathWithoutLastIndex_def
  slice_def substring_def splice_def addContentToLastRecord_def numToString.simps digitChar_def
  Let_def

lemma twoParagraphs_merge:
  "rehypeLyra (Suc (Suc (Suc fuel))) lib [] (noOptions\<lparr>mergeStrategy := Some Merge\<rparr>)
     (twoParagraphs A B) =
   Some (Inr [\<lparr>type_r = Some ''p'', content_r = A @ '' '' @ B, id_r = ''root[0].div[0]''\<rparr>])"
  by (simp add: run_simps)

lemma twoParagraphs_default:
  "rehypeLyra (Suc (Suc (Suc fuel))) lib [] noOptions (twoParagraphs A B) =
   Some (Inr [\<lparr>type_r = Some ''p'', content_r = A @ '' '' @ B, id_r = ''root[0].div[0]''\<rparr>])"
  by (simp add: run_simps)

lemma twoParagraphs_both:
  "rehypeLyra (Suc (Suc (Suc fuel))) lib [] (noOptions\<lparr>mergeStrategy := Some Both\<rparr>)
     (twoParagraphs A B) =
   Some (Inr [\<lparr>type_r = Some ''p'', content_r = A, id_r = ''root[0].div[0]''\<rparr>,
              \<lparr>type_r = Some ''p'', content_r = B, id_r = ''root[0].div[1]''\<rparr>,
              \<lparr>type_r = Some ''p'', content_r = A @ '' '' @ B, id_r = ''root[0].div[0]''\<rparr>])"
  by (simp add: run_simps)

lemma addAll_merge_pair:
  assumes "\<not> isRecordMergeable (parentPathOf pathA) tp records"
      and "isRecordMergeable (parentPathOf pathB) tp
             (records @ [\<lparr>type_r = tp, content_r = A, id_r = parentPathOf pathA\<rparr>])"
  shows "addAll Merge [(A, tp, pathA), (B, tp, pathB)] records =
           Inr (records @ [\<lparr>type_r = tp, content_r = A @ '' '' @ B, id_r = parentPathOf pathA\<rparr>])"
  using assms by (simp add: addRecords_Merge_new addRecords_Merge_mergeable)

section \<open>The walk with a transform function\<close>

text \<open>
  The model reproduces the repository's test of a changed \<open>raw\<close>: the heading is
  replaced by the re-parsed fragment and the record comes from the paragraph inside it.
  And it shows why the walk needs fuel: under a transform function that always answers
  with the same markup, the visit of a paragraph never ends, whatever the fuel.
\<close>

lemma raw_change_example:
  "rehypeLyra (Suc (Suc (Suc (Suc (Suc (Suc fuel)))))) exampleLib []
     \<lparr>transformFn = Some headingToDiv, mergeStrategy = None,
      basePath = Some ''tests/fixtures/h1.html/''\<rparr> headingPage =
   Some (Inr [\<lparr>type_r = Some ''p'', content_r = ''Hello'',
               id_r = ''tests/fixtures/h1.html/root[0].html[1].body[0].div[0]''\<rparr>])"
  by (simp add: run_simps headingPage_def headingToDiv_def exampleLib_def exampleFromHtml_def
        applyTransform_def)

lemma transform_can_recurse_without_end:
  "visitChildren fuel exampleLib (Element ''p'' [] [Text ''Hello'']) parentTag path records
     (noOptions\<lparr>transformFn := Some alwaysDiv\<rparr>) = None"
proof (induction fuel arbitrary: parentTag path records)
  case 0
  show ?case by simp
next
  case (Suc fuel)
  have "applyTransform exampleLib (Element ''p'' [] [Text ''Hello'']) alwaysDiv
          = Some (Element ''div'' [] [Element ''p'' [] [Text ''Hello'']])"
    by (simp add: applyTransform_def alwaysDiv_def exampleLib_def exampleFromHtml_def)
  then show ?case
    using Suc by (simp add: noOptions_def)
qed

section \<open>The merge test\<close>

text \<open>
  C1. \<^verbatim>\<open>isRecordMergeable\<close> answers true exactly when the record list is not empty, the
  candidate tag is the type of the last record, and the candidate path and the id of the
  last record have the same index-stripped form, where the index-stripped form is the
  result of \<^verbatim>\<open>pathWithoutLastIndex\<close>: on a path that ends in a bracketed index it is the
  path without that trailing index.
\<close>

theorem isRecordMergeable_iff:
  "isRecordMergeable path tg records =
     (records \<noteq> [] \<and> tg = type_r (last records)
        \<and> pathWithoutLastIndex path = pathWithoutLastIndex (id_r (last records)))
   \<and> pathWithoutLastIndex (p @ ''['' @ numToString i @ '']'') = p"
  using pathWithoutLastIndex_indexed [of p i]
  by (auto simp: isRecordMergeable_def Let_def last_conv_nth)

section \<open>The merge strategy\<close>

text \<open>
  C2. Under the merge strategy a mergeable text is added to the last record in place, after a
  single space, and the list keeps its length; a text that is not mergeable adds exactly
  one record with the tag, the text and the parent path. Hence two adjacent mergeable
  texts \<open>A\<close> and \<open>B\<close> leave one record with content \<open>A\<close>, a space, \<open>B\<close>, as the
  walk of two adjacent paragraphs in one container shows.
\<close>

theorem addRecords_merge_strategy:
  "(isRecordMergeable (parentPathOf path) tp records \<longrightarrow>
      addRecords cont tp path records Merge =
        Inr (records[length records - 1 :=
               (last records)\<lparr>content_r := content_r (last records) @ '' '' @ cont\<rparr>]))
   \<and> (\<not> isRecordMergeable (parentPathOf path) tp records \<longrightarrow>
      addRecords cont tp path records Merge =
        Inr (records @ [\<lparr>type_r = tp, content_r = cont, id_r = parentPathOf path\<rparr>]))
   \<and> (\<not> isRecordMergeable (parentPathOf pathA) tp records \<longrightarrow>
      isRecordMergeable (parentPathOf pathB) tp
        (records @ [\<lparr>type_r = tp, content_r = A, id_r = parentPathOf pathA\<rparr>]) \<longrightarrow>
      addAll Merge [(A, tp, pathA), (B, tp, pathB)] records =
        Inr (records @ [\<lparr>type_r = tp, content_r = A @ '' '' @ B, id_r = parentPathOf pathA\<rparr>]))
   \<and> rehypeLyra (Suc (Suc (Suc fuel))) lib [] (noOptions\<lparr>mergeStrategy := Some Merge\<rparr>)
        (twoParagraphs A B) =
      Some (Inr [\<lparr>type_r = Some ''p'', content_r = A @ '' '' @ B, id_r = ''root[0].div[0]''\<rparr>])"
proof (intro conjI impI)
  assume m: "isRecordMergeable (parentPathOf path) tp records"
  then have "records \<noteq> []" by (rule isRecordMergeable_nonempty)
  then show "addRecords cont tp path records Merge =
        Inr (records[length records - 1 :=
               (last records)\<lparr>content_r := content_r (last records) @ '' '' @ cont\<rparr>])"
    using addRecords_Merge_mergeable [OF m] by (simp add: list_update_last)
next
  assume "\<not> isRecordMergeable (parentPathOf path) tp records"
  then show "addRecords cont tp path records Merge =
        Inr (records @ [\<lparr>type_r = tp, content_r = cont, id_r = parentPathOf path\<rparr>])"
    by (rule addRecords_Merge_new)
next
  assume "\<not> isRecordMergeable (parentPathOf pathA) tp records"
    and "isRecordMergeable (parentPathOf pathB) tp
        (records @ [\<lparr>type_r = tp, content_r = A, id_r = parentPathOf pathA\<rparr>])"
  then show "addAll Merge [(A, tp, pathA), (B, tp, pathB)] records =
        Inr (records @ [\<lparr>type_r = tp, content_r = A @ '' '' @ B, id_r = parentPathOf pathA\<rparr>])"
    by (rule addAll_merge_pair)
next
  show "rehypeLyra (Suc (Suc (Suc fuel))) lib [] (noOptions\<lparr>mergeStrategy := Some Merge\<rparr>)
        (twoParagraphs A B) =
      Some (Inr [\<lparr>type_r = Some ''p'', content_r = A @ '' '' @ B, id_r = ''root[0].div[0]''\<rparr>])"
    by (rule twoParagraphs_merge)
qed

theorem addRecords_merge_strategy_witness:
  "isRecordMergeable (parentPathOf ''root[0].div[1].p[0]'') (Some ''p'')
     [\<lparr>type_r = Some ''p'', content_r = ''A'', id_r = ''root[0].div[0]''\<rparr>]
   \<and> addRecords ''B'' (Some ''p'') ''root[0].div[1].p[0]''
         [\<lparr>type_r = Some ''p'', content_r = ''A'', id_r = ''root[0].div[0]''\<rparr>] Merge =
       Inr [\<lparr>type_r = Some ''p'', content_r = ''A B'', id_r = ''root[0].div[0]''\<rparr>]
   \<and> \<not> isRecordMergeable (parentPathOf ''root[0].div[0].p[0]'') (Some ''p'') []
   \<and> addRecords ''A'' (Some ''p'') ''root[0].div[0].p[0]'' [] Merge =
       Inr [\<lparr>type_r = Some ''p'', content_r = ''A'', id_r = ''root[0].div[0]''\<rparr>]
   \<and> addAll Merge [(''A'', Some ''p'', ''root[0].div[0].p[0]''),
                    (''B'', Some ''p'', ''root[0].div[1].p[0]'')] [] =
       Inr [\<lparr>type_r = Some ''p'', content_r = ''A B'', id_r = ''root[0].div[0]''\<rparr>]"
proof -
  let ?a = "\<lparr>type_r = Some ''p'', content_r = ''A'', id_r = ''root[0].div[0]''\<rparr>"
  have pa: "parentPathOf ''root[0].div[0].p[0]'' = ''root[0].div[0]''"
    by (simp add: substring_def)
  have pb: "parentPathOf ''root[0].div[1].p[0]'' = ''root[0].div[1]''"
    by (simp add: substring_def)
  have m: "isRecordMergeable (parentPathOf ''root[0].div[1].p[0]'') (Some ''p'') [?a]"
    unfolding pb by (simp add: isRecordMergeable_def pathWithoutLastIndex_def slice_def)
  have n: "\<not> isRecordMergeable (parentPathOf ''root[0].div[0].p[0]'') (Some ''p'') []"
    by (simp add: isRecordMergeable_def)
  have m': "isRecordMergeable (parentPathOf ''root[0].div[1].p[0]'') (Some ''p'')
              ([] @ [\<lparr>type_r = Some ''p'', content_r = ''A'',
                       id_r = parentPathOf ''root[0].div[0].p[0]''\<rparr>])"
    using m unfolding pa by simp
  note t = addRecords_merge_strategy
  have 1: "addRecords ''B'' (Some ''p'') ''root[0].div[1].p[0]'' [?a] Merge =
             Inr ([?a][length [?a] - 1 :=
                (last [?a])\<lparr>content_r := content_r (last [?a]) @ '' '' @ ''B''\<rparr>])"
    using t [where path = "''root[0].div[1].p[0]''" and tp = "Some ''p''" and records = "[?a]"
                 and cont = "''B''"] m by blast
  have 2: "addRecords ''A'' (Some ''p'') ''root[0].div[0].p[0]'' [] Merge =
             Inr ([] @ [\<lparr>type_r = Some ''p'', content_r = ''A'',
                         id_r = parentPathOf ''root[0].div[0].p[0]''\<rparr>])"
    using t [where path = "''root[0].div[0].p[0]''" and tp = "Some ''p''" and records = "[]"
                 and cont = "''A''"] n by blast
  have 3: "addAll Merge [(''A'', Some ''p'', ''root[0].div[0].p[0]''),
                    (''B'', Some ''p'', ''root[0].div[1].p[0]'')] [] =
             Inr ([] @ [\<lparr>type_r = Some ''p'', content_r = ''A'' @ '' '' @ ''B'',
                         id_r = parentPathOf ''root[0].div[0].p[0]''\<rparr>])"
    using t [where pathA = "''root[0].div[0].p[0]''" and tp = "Some ''p''" and records = "[]"
                 and pathB = "''root[0].div[1].p[0]''" and A = "''A''" and B = "''B''"]
      n m' by blast
  show ?thesis
    using m n 1 2 3 unfolding pa pb by simp
qed

section \<open>The both strategy\<close>

text \<open>
  C3. Under the both strategy a mergeable text inserts its own record just before the last
  record and is also added to the last record; a text that is not mergeable pushes two
  equal records. The walk of two adjacent paragraphs \<open>A\<close> and \<open>B\<close> in one container
  gives the three records \<open>A\<close>, \<open>B\<close> and \<open>A B\<close>, in this order.
\<close>

theorem addRecords_both_strategy:
  "(isRecordMergeable (parentPathOf path) tp records \<longrightarrow>
      addRecords cont tp path records Both =
        Inr (butlast records
             @ [\<lparr>type_r = tp, content_r = cont, id_r = parentPathOf path\<rparr>,
                (last records)\<lparr>content_r := content_r (last records) @ '' '' @ cont\<rparr>]))
   \<and> (\<not> isRecordMergeable (parentPathOf path) tp records \<longrightarrow>
      addRecords cont tp path records Both =
        Inr (records
             @ [\<lparr>type_r = tp, content_r = cont, id_r = parentPathOf path\<rparr>,
                \<lparr>type_r = tp, content_r = cont, id_r = parentPathOf path\<rparr>]))
   \<and> rehypeLyra (Suc (Suc (Suc fuel))) lib [] (noOptions\<lparr>mergeStrategy := Some Both\<rparr>)
        (twoParagraphs A B) =
      Some (Inr [\<lparr>type_r = Some ''p'', content_r = A, id_r = ''root[0].div[0]''\<rparr>,
                 \<lparr>type_r = Some ''p'', content_r = B, id_r = ''root[0].div[1]''\<rparr>,
                 \<lparr>type_r = Some ''p'', content_r = A @ '' '' @ B, id_r = ''root[0].div[0]''\<rparr>])"
  using addRecords_Both_mergeable [of path tp records cont]
        addRecords_Both_new [of path tp records cont]
        twoParagraphs_both [of fuel lib A B]
  by blast

theorem addRecords_both_strategy_witness:
  "isRecordMergeable (parentPathOf ''root[0].div[1].p[0]'') (Some ''p'')
     [\<lparr>type_r = Some ''p'', content_r = ''A'', id_r = ''root[0].div[0]''\<rparr>,
      \<lparr>type_r = Some ''p'', content_r = ''A'', id_r = ''root[0].div[0]''\<rparr>]
   \<and> addRecords ''B'' (Some ''p'') ''root[0].div[1].p[0]''
         [\<lparr>type_r = Some ''p'', content_r = ''A'', id_r = ''root[0].div[0]''\<rparr>,
          \<lparr>type_r = Some ''p'', content_r = ''A'', id_r = ''root[0].div[0]''\<rparr>] Both =
       Inr [\<lparr>type_r = Some ''p'', content_r = ''A'', id_r = ''root[0].div[0]''\<rparr>,
            \<lparr>type_r = Some ''p'', content_r = ''B'', id_r = ''root[0].div[1]''\<rparr>,
            \<lparr>type_r = Some ''p'', content_r = ''A B'', id_r = ''root[0].div[0]''\<rparr>]
   \<and> \<not> isRecordMergeable (parentPathOf ''root[0].div[0].p[0]'') (Some ''p'') []
   \<and> addRecords ''A'' (Some ''p'') ''root[0].div[0].p[0]'' [] Both =
       Inr [\<lparr>type_r = Some ''p'', content_r = ''A'', id_r = ''root[0].div[0]''\<rparr>,
            \<lparr>type_r = Some ''p'', content_r = ''A'', id_r = ''root[0].div[0]''\<rparr>]"
proof -
  let ?a = "\<lparr>type_r = Some ''p'', content_r = ''A'', id_r = ''root[0].div[0]''\<rparr>"
  have pa: "parentPathOf ''root[0].div[0].p[0]'' = ''root[0].div[0]''"
    by (simp add: substring_def)
  have pb: "parentPathOf ''root[0].div[1].p[0]'' = ''root[0].div[1]''"
    by (simp add: substring_def)
  have m: "isRecordMergeable (parentPathOf ''root[0].div[1].p[0]'') (Some ''p'') [?a, ?a]"
    unfolding pb by (simp add: isRecordMergeable_def pathWithoutLastIndex_def slice_def)
  have n: "\<not> isRecordMergeable (parentPathOf ''root[0].div[0].p[0]'') (Some ''p'') []"
    by (simp add: isRecordMergeable_def)
  note t = addRecords_both_strategy
  have 1: "addRecords ''B'' (Some ''p'') ''root[0].div[1].p[0]'' [?a, ?a] Both =
             Inr (butlast [?a, ?a]
                  @ [\<lparr>type_r = Some ''p'', content_r = ''B'',
                       id_r = parentPathOf ''root[0].div[1].p[0]''\<rparr>,
                     (last [?a, ?a])\<lparr>content_r := content_r (last [?a, ?a]) @ '' '' @ ''B''\<rparr>])"
    using t [where path = "''root[0].div[1].p[0]''" and tp = "Some ''p''"
                 and records = "[?a, ?a]" and cont = "''B''"] m by blast
  have 2: "addRecords ''A'' (Some ''p'') ''root[0].div[0].p[0]'' [] Both =
             Inr ([] @ [\<lparr>type_r = Some ''p'', content_r = ''A'',
                         id_r = parentPathOf ''root[0].div[0].p[0]''\<rparr>,
                        \<lparr>type_r = Some ''p'', content_r = ''A'',
                         id_r = parentPathOf ''root[0].div[0].p[0]''\<rparr>])"
    using t [where path = "''root[0].div[0].p[0]''" and tp = "Some ''p''" and records = "[]"
                 and cont = "''A''"] n by blast
  show ?thesis
    using m n 1 2 unfolding pa pb by simp
qed

section \<open>Unrecognized file types\<close>

text \<open>
  C5, the claim as stated fails: populating from the file \<^verbatim>\<open>notes.txt\<close>, whose type
  \<open>txt\<close> is neither \<open>html\<close> nor \<open>md\<close>, completes successfully with nothing
  inserted.
\<close>

theorem populateFromFile_txt_fulfilled:
  "populateFromFile exampleEnv [] ''notes.txt'' noOptions = (Fulfilled (Some ''txt''), [])"
  by (simp add: populateFromFile_def populate_def exampleEnv_def slice_def Let_def)

text \<open>
  C5, as amended. For a file type that is neither \<open>html\<close> nor \<open>md\<close> the
  \<^verbatim>\<open>default\<close> branch returns the file type: the promise of \<^verbatim>\<open>populate\<close> is fulfilled
  with that value, no pipeline runs and the index is left as it was. The call does not
  reject.
\<close>

theorem populate_unrecognized:
  "fileType \<noteq> ''html'' \<Longrightarrow> fileType \<noteq> ''md'' \<Longrightarrow>
   populate env db data fileType options = (Fulfilled (Some fileType), db)"
  by (simp add: populate_def)

theorem populate_unrecognized_witness:
  "''txt'' \<noteq> ''html'' \<and> ''txt'' \<noteq> ''md''
   \<and> populate exampleEnv [] ''plain text'' ''txt'' noOptions = (Fulfilled (Some ''txt''), [])"
proof -
  have 1: "''txt'' \<noteq> ''html''" and 2: "''txt'' \<noteq> ''md''" by simp_all
  have "populate exampleEnv [] ''plain text'' ''txt'' noOptions = (Fulfilled (Some ''txt''), [])"
    by (rule populate_unrecognized [OF 1 2])
  with 1 2 show ?thesis by blast
qed

section \<open>Reconciling a transformed node\<close>

text \<open>
  C9. When the returned \<open>raw\<close> differs from the element's serialization,
  \<^verbatim>\<open>applyChanges\<close> returns the first node of the re-parsed fragment (\<open>None\<close>, that is
  \<^verbatim>\<open>undefined\<close>, when the fragment has no node) and the returned tag and content play no
  part. When \<open>raw\<close> is unchanged the element is renamed to the returned tag, and its
  content is replaced through \<^verbatim>\<open>fromString\<close> exactly when the returned content differs
  from the element's flattened text; otherwise properties and children stay as they are.
\<close>

theorem applyChanges_cases:
  "(raw tn \<noteq> toHtml lib (Element t ps cs) \<longrightarrow>
      applyChanges lib (Element t ps cs) tn =
        (case fromHtml lib (raw tn) of [] \<Rightarrow> None | first # _ \<Rightarrow> Some first)
      \<and> applyChanges lib (Element t ps cs) (tn\<lparr>tag := t', content := c'\<rparr>) =
          applyChanges lib (Element t ps cs) tn)
   \<and> (raw tn = toHtml lib (Element t ps cs) \<longrightarrow>
      toString lib (Element (tag tn) ps cs) \<noteq> content tn \<longrightarrow>
      applyChanges lib (Element t ps cs) tn =
        Some (fromString lib (Element (tag tn) ps cs) (content tn)))
   \<and> (raw tn = toHtml lib (Element t ps cs) \<longrightarrow>
      toString lib (Element (tag tn) ps cs) = content tn \<longrightarrow>
      applyChanges lib (Element t ps cs) tn = Some (Element (tag tn) ps cs))"
  by (auto simp: Let_def)

theorem applyChanges_cases_witness:
  "raw \<lparr>tag = ''h2'', raw = ''<div><p>Hello</p></div>'', content = ''New content''\<rparr>
     \<noteq> toHtml exampleLib (Element ''h1'' [] [Text ''Heading''])
   \<and> applyChanges exampleLib (Element ''h1'' [] [Text ''Heading''])
        \<lparr>tag = ''h2'', raw = ''<div><p>Hello</p></div>'', content = ''New content''\<rparr> =
      Some (Element ''div'' [] [Element ''p'' [] [Text ''Hello'']])
   \<and> raw \<lparr>tag = ''h1'', raw = ''<h1>Heading</h1>'', content = ''New content''\<rparr>
     = toHtml exampleLib (Element ''h1'' [] [Text ''Heading''])
   \<and> applyChanges exampleLib (Element ''h1'' [] [Text ''Heading''])
        \<lparr>tag = ''h1'', raw = ''<h1>Heading</h1>'', content = ''New content''\<rparr> =
      Some (Element ''h1'' [] [Text ''New content''])
   \<and> applyChanges exampleLib (Element ''h1'' [] [Text ''Heading''])
        \<lparr>tag = ''h2'', raw = ''<h1>Heading</h1>'', content = ''Heading''\<rparr> =
      Some (Element ''h2'' [] [Text ''Heading''])"
proof -
  let ?h = "Element ''h1'' [] [Text ''Heading'']"
  let ?a = "\<lparr>tag = ''h2'', raw = ''<div><p>Hello</p></div>'', content = ''New content''\<rparr>"
  let ?b = "\<lparr>tag = ''h1'', raw = ''<h1>Heading</h1>'', content = ''New content''\<rparr>"
  let ?c = "\<lparr>tag = ''h2'', raw = ''<h1>Heading</h1>'', content = ''Heading''\<rparr>"
  have html: "toHtml exampleLib ?h = ''<h1>Heading</h1>''"
    by (simp add: exampleLib_def)
  have a: "raw ?a \<noteq> toHtml exampleLib ?h" unfolding html by simp
  have b: "raw ?b = toHtml exampleLib ?h" unfolding html by simp
  have b': "toString exampleLib (Element (tag ?b) [] [Text ''Heading'']) \<noteq> content ?b"
    by (simp add: exampleLib_def)
  have c: "raw ?c = toHtml exampleLib ?h" unfolding html by simp
  have c': "toString exampleLib (Element (tag ?c) [] [Text ''Heading'']) = content ?c"
    by (simp add: exampleLib_def)
  note t = applyChanges_cases [where lib = exampleLib and t = "''h1''" and ps = "[]"
      and cs = "[Text ''Heading'']"]
  have 1: "applyChanges exampleLib ?h ?a =
             (case fromHtml exampleLib (raw ?a) of [] \<Rightarrow> None | first # _ \<Rightarrow> Some first)"
    using t [where tn = ?a] a by blast
  have 2: "applyChanges exampleLib ?h ?b =
             Some (fromString exampleLib (Element (tag ?b) [] [Text ''Heading'']) (content ?b))"
    using t [where tn = ?b] b b' by blast
  have 3: "applyChanges exampleLib ?h ?c = Some (Element (tag ?c) [] [Text ''Heading''])"
    using t [where tn = ?c] c c' by blast
  have r1: "applyChanges exampleLib ?h ?a = Some (Element ''div'' [] [Element ''p'' [] [Text ''Hello'']])"
    unfolding 1 by (simp add: exampleLib_def exampleFromHtml_def)
  have r2: "applyChanges exampleLib ?h ?b = Some (Element ''h1'' [] [Text ''New content''])"
    unfolding 2 by (simp add: exampleLib_def)
  have r3: "applyChanges exampleLib ?h ?c = Some (Element ''h2'' [] [Text ''Heading''])"
    unfolding 3 by simp
  show ?thesis
    using a b r1 r2 r3 by blast
qed

section \<open>The walk as a sequence of text visits\<close>

lemma forEachRoot_link:
  "forEachRoot fuel lib children i records options =
     (case rootTextVisits fuel lib children i options of
        None \<Rightarrow> None
      | Some (Inl e) \<Rightarrow> Some (Inl e)
      | Some (Inr vs) \<Rightarrow> Some (addAll (strategyOf options) vs records))"
proof (induction children arbitrary: i records)
  case Nil
  show ?case by simp
next
  case (Cons child rest)
  let ?p = "basePathOf options @ ''root['' @ numToString i @ '']''"
  show ?case
  proof (cases "textVisits fuel lib child None ?p options")
    case None
    then show ?thesis by (simp add: visit_link)
  next
    case (Some res)
    show ?thesis
    proof (cases res)
      case (Inl e)
      with Some show ?thesis by (simp add: visit_link)
    next
      case (Inr vs)
      obtain r1 where r1: "addAll (strategyOf options) vs records = Inr r1"
        using addAll_total by blast
      have v: "visitChildren fuel lib child None ?p records options = Some (Inr r1)"
        using Some Inr r1 by (simp add: visit_link)
      show ?thesis
        using v Some Inr r1 Cons [of "Suc i" r1]
        by (auto simp: addAll_append split: option.splits sum.splits)
    qed
  qed
qed

lemma rehypeLyra_link:
  "rehypeLyra fuel lib records options tree =
     (case treeTextVisits fuel lib options tree of
        None \<Rightarrow> None
      | Some (Inl e) \<Rightarrow> Some (Inl e)
      | Some (Inr vs) \<Rightarrow> Some (addAll (strategyOf options) vs records))"
  by (cases tree) (simp add: forEachRoot_link)

lemma rehypeLyra_visits:
  assumes "rehypeLyra fuel lib records options tree = Some (Inr records')"
  shows "\<exists>visits. treeTextVisits fuel lib options tree = Some (Inr visits)
           \<and> addAll (strategyOf options) visits records = Inr records'"
  using assms unfolding rehypeLyra_link by (auto split: option.splits sum.splits)

lemma addAll_Split: "addAll Split visits records = Inr (records @ map newRecordOf visits)"
  by (induction visits arbitrary: records)
     (auto simp: addRecords_Split newRecordOf_def)

lemma depth_le_foldr_max: "c \<in> set cs \<Longrightarrow> depth c \<le> foldr max (map depth cs) 0"
  by (induction cs) auto

lemma textVisits_plain:
  "transformFn options = None \<Longrightarrow> depth nd \<le> fuel \<Longrightarrow>
   \<exists>vs. textVisits fuel lib nd parentTag path options = Some (Inr vs)
          \<and> length vs = countTexts nd"
  and childTextVisits_plain:
  "transformFn options = None \<Longrightarrow> \<forall>c \<in> set children. depth c \<le> fuel \<Longrightarrow>
   \<exists>vs. childTextVisits fuel lib children tagName path i options = Some (Inr vs)
          \<and> length vs = sum_list (map countTexts children)"
proof (induction fuel lib nd parentTag path options
         and fuel lib children tagName path i options
       rule: textVisits_childTextVisits.induct)
  case (1 lib nd parentTag path options)
  then show ?case by (cases nd) simp_all
next
  case (2 fuel lib nd parentTag path options)
  show ?case
  proof (cases nd)
    case (Element t ps cs)
    have r: "(case transformFn options of
                None \<Rightarrow> Some nd
              | Some f \<Rightarrow> applyTransform lib nd f) = Some nd"
      using 2(2) by simp
    have "\<forall>c \<in> set cs. depth c \<le> fuel"
      using 2(3) Element depth_le_foldr_max [of _ cs] by fastforce
    from 2(1) [OF Element r Element 2(2) this]
    show ?thesis
      using Element 2(2) by simp
  qed simp_all
next
  case (3 fuel lib tagName path i options)
  show ?case by simp
next
  case (4 fuel lib child rest tagName path i options)
  let ?p = "path @ ''.'' @ tagName @ ''['' @ numToString i @ '']''"
  obtain vs where vs: "textVisits fuel lib child (Some tagName) ?p options = Some (Inr vs)"
      "length vs = countTexts child"
    using 4(1) [OF 4(3)] 4(4) by auto
  obtain ws where ws: "childTextVisits fuel lib rest tagName path (Suc i) options = Some (Inr ws)"
      "length ws = sum_list (map countTexts rest)"
    using 4(2) [OF vs(1) refl 4(3)] 4(4) by auto
  show ?case
    using vs ws by simp
qed

lemma rootTextVisits_plain:
  "transformFn options = None \<Longrightarrow> \<forall>c \<in> set children. depth c \<le> fuel \<Longrightarrow>
   \<exists>vs. rootTextVisits fuel lib children i options = Some (Inr vs)
          \<and> length vs = sum_list (map countTexts children)"
proof (induction children arbitrary: i)
  case Nil
  show ?case by simp
next
  case (Cons child rest)
  let ?p = "basePathOf options @ ''root['' @ numToString i @ '']''"
  obtain vs where vs: "textVisits fuel lib child None ?p options = Some (Inr vs)"
      "length vs = countTexts child"
    using textVisits_plain [OF Cons(2), of child fuel lib None ?p] Cons(3) by auto
  obtain ws where ws: "rootTextVisits fuel lib rest (Suc i) options = Some (Inr ws)"
      "length ws = sum_list (map countTexts rest)"
    using Cons(1) [OF Cons(2), of "Suc i"] Cons(3) by auto
  show ?case
    using vs ws by simp
qed

lemma treeTextVisits_plain:
  assumes "transformFn options = None" and "depthRoot tree \<le> fuel"
  shows "\<exists>vs. treeTextVisits fuel lib options tree = Some (Inr vs)
           \<and> length vs = countTextsRoot tree"
proof (cases tree)
  case (Root children)
  have "\<forall>c \<in> set children. depth c \<le> fuel"
    using assms(2) Root depth_le_foldr_max [of _ children] by fastforce
  from rootTextVisits_plain [OF assms(1) this, of lib 0] Root show ?thesis
    by simp
qed

lemma split_walk:
  assumes "mergeStrategy options = Some Split"
      and "rehypeLyra fuel lib records options tree = Some (Inr records')"
  shows "\<exists>visits. treeTextVisits fuel lib options tree = Some (Inr visits)
           \<and> records' = records @ map newRecordOf visits
           \<and> length records' = length records + length visits"
  using rehypeLyra_visits [OF assms(2)] assms(1) by (auto simp: addAll_Split)

lemma split_walk_plain:
  assumes "mergeStrategy options = Some Split" and "transformFn options = None"
      and "depthRoot tree \<le> fuel"
  shows "\<exists>records'. rehypeLyra fuel lib records options tree = Some (Inr records')
           \<and> length records' = length records + countTextsRoot tree
           \<and> take (length records) records' = records"
proof -
  obtain vs where vs: "treeTextVisits fuel lib options tree = Some (Inr vs)"
      "length vs = countTextsRoot tree"
    using treeTextVisits_plain [OF assms(2,3)] by blast
  then show ?thesis
    using assms(1) by (simp add: rehypeLyra_link addAll_Split)
qed

text \<open>
  C4. Under the split strategy every call of \<^verbatim>\<open>addRecords\<close> appends exactly one record and
  leaves the others as they are. So a walk that returns has produced, after the records
  it started with, exactly one record per text visit, in order; and for a document
  walked without a transform function the walk returns, given fuel for the depth of the
  tree, with as many new records as the tree has text nodes.
\<close>

theorem split_one_record_per_text:
  "addRecords cont tp path records Split =
     Inr (records @ [\<lparr>type_r = tp, content_r = cont, id_r = parentPathOf path\<rparr>])
   \<and> (mergeStrategy options = Some Split \<longrightarrow>
       rehypeLyra fuel lib records options tree = Some (Inr records') \<longrightarrow>
       (\<exists>visits. treeTextVisits fuel lib options tree = Some (Inr visits)
          \<and> records' = records @ map newRecordOf visits
          \<and> length records' = length records + length visits))
   \<and> (mergeStrategy options = Some Split \<longrightarrow> transformFn options = None \<longrightarrow>
       depthRoot tree \<le> fuel \<longrightarrow>
       (\<exists>result. rehypeLyra fuel lib records options tree = Some (Inr result)
          \<and> length result = length records + countTextsRoot tree
          \<and> take (length records) result = records))"
  using addRecords_Split split_walk split_walk_plain
  by (intro conjI impI)

theorem split_one_record_per_text_witness:
  "mergeStrategy (noOptions\<lparr>mergeStrategy := Some Split\<rparr>) = Some Split
   \<and> transformFn (noOptions\<lparr>mergeStrategy := Some Split\<rparr>) = None
   \<and> depthRoot threeTexts \<le> 3
   \<and> countTextsRoot threeTexts = 3
   \<and> (\<exists>result. rehypeLyra 3 exampleLib [] (noOptions\<lparr>mergeStrategy := Some Split\<rparr>) threeTexts
                   = Some (Inr result)
          \<and> length result = 3
          \<and> (\<exists>visits. treeTextVisits 3 exampleLib (noOptions\<lparr>mergeStrategy := Some Split\<rparr>)
                          threeTexts = Some (Inr visits)
                \<and> result = map newRecordOf visits))"
proof -
  let ?o = "noOptions\<lparr>mergeStrategy := Some Split\<rparr>"
  have a: "mergeStrategy ?o = Some Split" by simp
  have b: "transformFn ?o = None" by (simp add: noOptions_def)
  have c: "depthRoot threeTexts \<le> 3" by (simp add: threeTexts_def)
  have d: "countTextsRoot threeTexts = 3" by (simp add: threeTexts_def)
  note t = split_one_record_per_text [where options = ?o and fuel = 3 and lib = exampleLib
      and tree = threeTexts and records = "[]"]
  obtain result where r: "rehypeLyra 3 exampleLib [] ?o threeTexts = Some (Inr result)"
      "length result = length ([] :: DefaultSchemaElement list) + countTextsRoot threeTexts"
    using t a b c by blast
  obtain visits where v: "treeTextVisits 3 exampleLib ?o threeTexts = Some (Inr visits)"
      "result = [] @ map newRecordOf visits"
    using t [where records' = result] a r(1) by blast
  show ?thesis
    using a b c d r v by auto
qed

section \<open>Visitation order\<close>

lemma joinSpace_snoc: "xs \<noteq> [] \<Longrightarrow> joinSpace (xs @ [y]) = joinSpace xs @ '' '' @ y"
  by (induction xs rule: joinSpace.induct) simp_all

lemma carries_mono: "carries visits r origin \<Longrightarrow> carries (visits @ later) r origin"
proof -
  assume c: "carries visits r origin"
  then have ne: "origin \<noteq> []" and lt: "\<forall>k \<in> set origin. k < length visits"
    by (simp_all add: carries_def)
  from ne lt have hd: "hd origin < length visits" by (cases origin) simp_all
  have m: "map (\<lambda>k. fst ((visits @ later) ! k)) origin = map (\<lambda>k. fst (visits ! k)) origin"
    using lt by (simp add: nth_append)
  show ?thesis
    unfolding carries_def m using c hd lt by (auto simp: carries_def nth_append)
qed

lemma carries_new:
  "carries (visits @ [(cont, tp, path)])
     \<lparr>type_r = tp, content_r = cont, id_r = parentPathOf path\<rparr> [length visits]"
  by (simp add: carries_def)

lemma carries_extend:
  assumes "carries visits r origin"
  shows "carries (visits @ [(cont, tp, path)])
           (r\<lparr>content_r := content_r r @ '' '' @ cont\<rparr>) (origin @ [length visits])"
proof -
  from assms have ne: "origin \<noteq> []" and lt: "\<forall>k \<in> set origin. k < length visits"
    by (simp_all add: carries_def)
  from ne lt have hd: "hd origin < length visits" by (cases origin) simp_all
  have m: "map (\<lambda>k. fst ((visits @ [(cont, tp, path)]) ! k)) origin
             = map (\<lambda>k. fst (visits ! k)) origin"
    using lt by (simp add: nth_append)
  have "map (\<lambda>k. fst ((visits @ [(cont, tp, path)]) ! k)) (origin @ [length visits])
          = map (\<lambda>k. fst (visits ! k)) origin @ [cont]"
    using m by simp
  then have j: "joinSpace (map (\<lambda>k. fst ((visits @ [(cont, tp, path)]) ! k))
                             (origin @ [length visits]))
                 = joinSpace (map (\<lambda>k. fst (visits ! k)) origin) @ '' '' @ cont"
    using ne by (simp only: joinSpace_snoc map_is_Nil_conv not_False_eq_True)
  show ?thesis
    unfolding carries_def j using assms ne hd lt
    by (auto simp: carries_def nth_append)
qed

lemma list_all2_butlast_last:
  "list_all2 P xs ys \<Longrightarrow> xs \<noteq> [] \<Longrightarrow>
   list_all2 P (butlast xs) (butlast ys) \<and> P (last xs) (last ys) \<and> ys \<noteq> []"
proof (induction xs ys rule: list_all2_induct)
  case Nil
  then show ?case by simp
next
  case (Cons x xs y ys)
  then show ?case by (cases xs; cases ys) auto
qed

lemma carries_bound:
  "list_all2 (carries visits) rs os \<Longrightarrow> origin \<in> set os \<Longrightarrow> \<forall>a \<in> set origin. a < length visits"
  by (auto simp: list_all2_conv_all_nth in_set_conv_nth carries_def)

lemma inVisitOrder_new: "\<forall>a \<in> set origin. a < n \<Longrightarrow> inVisitOrder origin [n]"
  by (auto simp: inVisitOrder_def intro: less_imp_le)

lemma inVisitOrder_extend:
  "inVisitOrder origin l \<Longrightarrow> \<forall>a \<in> set origin. a < n \<Longrightarrow> inVisitOrder origin (l @ [n])"
  by (auto simp: inVisitOrder_def)

lemma inVisitOrder_same: "inVisitOrder [n] (l @ [n])"
  by (simp add: inVisitOrder_def)

lemma inVisitOrder_refl: "inVisitOrder [n] [n]"
  by (simp add: inVisitOrder_def)

lemma sorted_origins_new:
  assumes "sorted_wrt inVisitOrder os" and "\<forall>origin \<in> set os. \<forall>a \<in> set origin. a < n"
  shows "sorted_wrt inVisitOrder (os @ [[n]])"
    and "sorted_wrt inVisitOrder (os @ [[n], [n]])"
  using assms by (auto simp: sorted_wrt_append inVisitOrder_new inVisitOrder_refl)

lemma sorted_origins_extend:
  assumes "sorted_wrt inVisitOrder os" and "\<forall>origin \<in> set os. \<forall>a \<in> set origin. a < n"
      and "os \<noteq> []"
  shows "sorted_wrt inVisitOrder (butlast os @ [last os @ [n]])"
    and "sorted_wrt inVisitOrder (butlast os @ [[n], last os @ [n]])"
proof -
  from assms(3) obtain bs l where os: "os = bs @ [l]"
    by (cases os rule: rev_cases) auto
  have b: "\<forall>origin \<in> set bs. \<forall>a \<in> set origin. a < n"
    using assms(2) os by simp
  have s: "sorted_wrt inVisitOrder bs" and p: "\<forall>x \<in> set bs. inVisitOrder x l"
    using assms(1) os by (simp_all add: sorted_wrt_append)
  have e: "\<forall>x \<in> set bs. inVisitOrder x (l @ [n])"
    using p b by (blast intro: inVisitOrder_extend)
  have w: "\<forall>x \<in> set bs. inVisitOrder x [n]"
    using b by (blast intro: inVisitOrder_new)
  show "sorted_wrt inVisitOrder (butlast os @ [last os @ [n]])"
    using s e by (simp add: os sorted_wrt_append)
  show "sorted_wrt inVisitOrder (butlast os @ [[n], last os @ [n]])"
    using s e w by (simp add: os sorted_wrt_append inVisitOrder_same)
qed

lemma carries_all_mono:
  "list_all2 (carries visits) rs os \<Longrightarrow> list_all2 (carries (visits @ later)) rs os"
  by (erule list_all2_mono) (rule carries_mono)

lemma step_carries:
  assumes A: "list_all2 (carries visits) rs os"
      and R: "addRecords cont tp path rs s = Inr rs1"
  shows "list_all2 (carries (visits @ [(cont, tp, path)])) rs1
           (addOrigins (length visits) tp path rs s os)"
proof -
  let ?v = "visits @ [(cont, tp, path)]"
  let ?new = "\<lparr>type_r = tp, content_r = cont, id_r = parentPathOf path\<rparr>"
  let ?n = "length visits"
  have A': "list_all2 (carries ?v) rs os"
    using A by (rule carries_all_mono)
  have new: "carries ?v ?new [?n]" by (rule carries_new)
  show ?thesis
  proof (cases "isRecordMergeable (parentPathOf path) tp rs")
    case False
    show ?thesis
    proof (cases s)
      case Merge
      with False R have "rs1 = rs @ [?new]" by (simp add: addRecords_Merge_new)
      with False Merge A' new show ?thesis
        by (simp add: addOrigins_def list_all2_appendI)
    next
      case Split
      with R have "rs1 = rs @ [?new]" by (simp add: addRecords_Split)
      with Split A' new show ?thesis
        by (simp add: addOrigins_def list_all2_appendI)
    next
      case Both
      with False R have "rs1 = rs @ [?new, ?new]" by (simp add: addRecords_Both_new)
      with False Both A' new show ?thesis
        by (simp add: addOrigins_def list_all2_appendI)
    qed
  next
    case True
    then have ne: "rs \<noteq> []" by (rule isRecordMergeable_nonempty)
    from list_all2_butlast_last [OF A ne]
    have bl: "list_all2 (carries visits) (butlast rs) (butlast os)"
      and l: "carries visits (last rs) (last os)" by simp_all
    have bl': "list_all2 (carries ?v) (butlast rs) (butlast os)"
      using bl by (rule carries_all_mono)
    let ?ext = "(last rs)\<lparr>content_r := content_r (last rs) @ '' '' @ cont\<rparr>"
    have ext: "carries ?v ?ext (last os @ [?n])"
      using l by (rule carries_extend)
    show ?thesis
    proof (cases s)
      case Merge
      with True R have "rs1 = butlast rs @ [?ext]" by (simp add: addRecords_Merge_mergeable)
      with True Merge bl' ext show ?thesis
        by (simp add: addOrigins_def list_all2_appendI)
    next
      case Split
      with R have "rs1 = rs @ [?new]" by (simp add: addRecords_Split)
      with Split A' new show ?thesis
        by (simp add: addOrigins_def list_all2_appendI)
    next
      case Both
      with True R have "rs1 = butlast rs @ [?new, ?ext]" by (simp add: addRecords_Both_mergeable)
      with True Both bl' ext new show ?thesis
        by (simp add: addOrigins_def list_all2_appendI)
    qed
  qed
qed

lemma step_sorted:
  assumes A: "list_all2 (carries visits) rs os"
      and S: "sorted_wrt inVisitOrder os"
  shows "sorted_wrt inVisitOrder (addOrigins (length visits) tp path rs s os)"
proof -
  have b: "\<forall>origin \<in> set os. \<forall>a \<in> set origin. a < length visits"
    using carries_bound [OF A] by blast
  show ?thesis
  proof (cases "isRecordMergeable (parentPathOf path) tp rs")
    case False
    then show ?thesis
      using sorted_origins_new [OF S b] by (cases s) (simp_all add: addOrigins_def)
  next
    case True
    then have "rs \<noteq> []" by (rule isRecordMergeable_nonempty)
    with A have "os \<noteq> []" by auto
    from sorted_origins_extend [OF S b this] sorted_origins_new [OF S b] True
    show ?thesis
      by (cases s) (simp_all add: addOrigins_def)
  qed
qed

lemma run_invariant:
  assumes "list_all2 (carries visits) rs os" and "sorted_wrt inVisitOrder os"
      and "addAll s later rs = Inr rs'"
  shows "list_all2 (carries (visits @ later)) rs' (originsAll s (length visits) later rs os)
         \<and> sorted_wrt inVisitOrder (originsAll s (length visits) later rs os)"
  using assms
proof (induction later arbitrary: visits rs os)
  case Nil
  then show ?case by simp
next
  case (Cons v later)
  obtain cont tp path where v: "v = (cont, tp, path)" by (cases v)
  obtain rs1 where rs1: "addRecords cont tp path rs s = Inr rs1"
    using addRecords_total by blast
  have 1: "list_all2 (carries (visits @ [v])) rs1 (addOrigins (length visits) tp path rs s os)"
    unfolding v using Cons.prems(1) rs1 by (rule step_carries)
  have 2: "sorted_wrt inVisitOrder (addOrigins (length visits) tp path rs s os)"
    using Cons.prems(1,2) by (rule step_sorted)
  have 3: "addAll s later rs1 = Inr rs'"
    using Cons.prems(3) v rs1 by simp
  from Cons.IH [OF 1 2 3] show ?case
    using v rs1 by simp
qed

lemma walk_origins:
  assumes "rehypeLyra fuel lib [] options tree = Some (Inr records)"
  shows "\<exists>visits origins.
           treeTextVisits fuel lib options tree = Some (Inr visits)
           \<and> origins = originsAll (strategyOf options) 0 visits [] []
           \<and> length origins = length records
           \<and> (\<forall>i < length records. carries visits (records ! i) (origins ! i))
           \<and> (\<forall>i j. i < j \<longrightarrow> j < length records \<longrightarrow> inVisitOrder (origins ! i) (origins ! j))"
proof -
  obtain visits where v: "treeTextVisits fuel lib options tree = Some (Inr visits)"
      and a: "addAll (strategyOf options) visits [] = Inr records"
    using rehypeLyra_visits [OF assms] by blast
  let ?os = "originsAll (strategyOf options) 0 visits [] []"
  have "list_all2 (carries ([] @ visits)) records
          (originsAll (strategyOf options) (length ([] :: textVisit list)) visits [] [])
        \<and> sorted_wrt inVisitOrder
            (originsAll (strategyOf options) (length ([] :: textVisit list)) visits [] [])"
    by (rule run_invariant [OF _ _ a]) simp_all
  then have c: "list_all2 (carries visits) records ?os" and s: "sorted_wrt inVisitOrder ?os"
    by simp_all
  from c have len: "length ?os = length records"
    by (simp add: list_all2_lengthD)
  from c have nth: "\<forall>i < length records. carries visits (records ! i) (?os ! i)"
    by (simp add: list_all2_conv_all_nth)
  from s len have ord: "\<forall>i j. i < j \<longrightarrow> j < length records \<longrightarrow> inVisitOrder (?os ! i) (?os ! j)"
    by (simp add: sorted_wrt_iff_nth_less)
  from v len nth ord show ?thesis by blast
qed

lemma addRecords_keeps_order:
  assumes "addRecords cont tp path records0 s = Inr records1"
  shows "(\<exists>new. records1 = records0 @ new)
         \<or> (\<exists>new ext. records0 \<noteq> []
               \<and> records1 = butlast records0 @ new
                    @ [(last records0)\<lparr>content_r := content_r (last records0) @ ext\<rparr>])"
proof (cases "isRecordMergeable (parentPathOf path) tp records0")
  case False
  then have "\<exists>new. records1 = records0 @ new"
    using assms
    by (cases s) (auto simp: addRecords_Merge_new addRecords_Split addRecords_Both_new)
  then show ?thesis ..
next
  case True
  then have ne: "records0 \<noteq> []" by (rule isRecordMergeable_nonempty)
  show ?thesis
  proof (cases s)
    case Split
    with assms have "\<exists>new. records1 = records0 @ new" by (auto simp: addRecords_Split)
    then show ?thesis ..
  next
    case Merge
    with True assms have "records1 = butlast records0 @ []
        @ [(last records0)\<lparr>content_r := content_r (last records0) @ ('' '' @ cont)\<rparr>]"
      by (simp add: addRecords_Merge_mergeable)
    with ne show ?thesis by blast
  next
    case Both
    with True assms have "records1 = butlast records0
        @ [\<lparr>type_r = tp, content_r = cont, id_r = parentPathOf path\<rparr>]
        @ [(last records0)\<lparr>content_r := content_r (last records0) @ ('' '' @ cont)\<rparr>]"
      by (simp add: addRecords_Both_mergeable)
    with ne show ?thesis by blast
  qed
qed

lemma walk_plain_returns:
  assumes "transformFn options = None" and "depthRoot tree \<le> fuel"
  shows "\<exists>result. rehypeLyra fuel lib records options tree = Some (Inr result)"
proof -
  obtain vs where "treeTextVisits fuel lib options tree = Some (Inr vs)"
    using treeTextVisits_plain [OF assms] by blast
  then show ?thesis
    using addAll_total [of "strategyOf options" vs records] by (auto simp: rehypeLyra_link)
qed

lemma sorted_allBefore_new:
  assumes "sorted_wrt allBefore os" and "\<forall>origin \<in> set os. \<forall>a \<in> set origin. a < n"
  shows "sorted_wrt allBefore (os @ [[n]])"
  using assms by (auto simp: sorted_wrt_append allBefore_def)

lemma sorted_allBefore_extend:
  assumes "sorted_wrt allBefore os" and "\<forall>origin \<in> set os. \<forall>a \<in> set origin. a < n"
      and "os \<noteq> []"
  shows "sorted_wrt allBefore (butlast os @ [last os @ [n]])"
proof -
  from assms(3) obtain bs l where os: "os = bs @ [l]"
    by (cases os rule: rev_cases) auto
  have b: "\<forall>origin \<in> set bs. \<forall>a \<in> set origin. a < n"
    using assms(2) os by simp
  have s: "sorted_wrt allBefore bs" and p: "\<forall>x \<in> set bs. allBefore x l"
    using assms(1) os by (simp_all add: sorted_wrt_append)
  have "\<forall>x \<in> set bs. allBefore x (l @ [n])"
    using p b by (auto simp: allBefore_def)
  with s show ?thesis
    by (simp add: os sorted_wrt_append)
qed

lemma step_allBefore:
  assumes A: "list_all2 (carries visits) rs os"
      and S: "sorted_wrt allBefore os"
      and B: "s \<noteq> Both"
  shows "sorted_wrt allBefore (addOrigins (length visits) tp path rs s os)"
proof -
  have b: "\<forall>origin \<in> set os. \<forall>a \<in> set origin. a < length visits"
    using carries_bound [OF A] by blast
  show ?thesis
  proof (cases "isRecordMergeable (parentPathOf path) tp rs")
    case False
    then show ?thesis
      using sorted_allBefore_new [OF S b] B by (cases s) (simp_all add: addOrigins_def)
  next
    case True
    then have "rs \<noteq> []" by (rule isRecordMergeable_nonempty)
    with A have "os \<noteq> []" by auto
    from sorted_allBefore_extend [OF S b this] sorted_allBefore_new [OF S b] True B
    show ?thesis
      by (cases s) (simp_all add: addOrigins_def)
  qed
qed

lemma run_allBefore:
  assumes "list_all2 (carries visits) rs os" and "sorted_wrt allBefore os" and "s \<noteq> Both"
  shows "sorted_wrt allBefore (originsAll s (length visits) later rs os)"
  using assms(1,2)
proof (induction later arbitrary: visits rs os)
  case Nil
  then show ?case by simp
next
  case (Cons v later)
  obtain cont tp path where v: "v = (cont, tp, path)" by (cases v)
  obtain rs1 where rs1: "addRecords cont tp path rs s = Inr rs1"
    using addRecords_total by blast
  have 1: "list_all2 (carries (visits @ [v])) rs1 (addOrigins (length visits) tp path rs s os)"
    unfolding v using Cons.prems(1) rs1 by (rule step_carries)
  have 2: "sorted_wrt allBefore (addOrigins (length visits) tp path rs s os)"
    using Cons.prems(1,2) assms(3) by (rule step_allBefore)
  from Cons.IH [OF 1 2] show ?case
    using v rs1 by simp
qed

lemma sorted_allBefore_inTextOrder:
  assumes "sorted_wrt allBefore os"
  shows "inTextOrder os"
  unfolding inTextOrder_def
proof (intro allI impI ballI)
  fix i j a b
  assume i: "i < length os" and j: "j < length os"
    and a: "a \<in> set (os ! i)" and b: "b \<in> set (os ! j)" and ab: "a < b"
  show "i \<le> j"
  proof (rule ccontr)
    assume "\<not> i \<le> j"
    then have "j < i" by simp
    with assms i have "allBefore (os ! j) (os ! i)"
      by (simp add: sorted_wrt_iff_nth_less)
    with a b have "b < a" by (simp add: allBefore_def)
    with ab show False by simp
  qed
qed

lemma walk_inTextOrder:
  assumes "strategyOf options \<noteq> Both"
  shows "inTextOrder (originsAll (strategyOf options) 0 visits [] [])"
proof -
  have "sorted_wrt allBefore
          (originsAll (strategyOf options) (length ([] :: textVisit list)) visits [] [])"
    by (rule run_allBefore [OF _ _ assms]) simp_all
  then show ?thesis
    using sorted_allBefore_inTextOrder by simp
qed

text \<open>
  C7, the claim as stated fails under the both strategy. For two adjacent paragraphs
  \<open>A\<close> and \<open>B\<close> the records are \<open>A\<close>, \<open>B\<close>, \<open>A B\<close>: the last record
  carries the text of \<open>A\<close>, which was visited before \<open>B\<close>, and yet it stands after the
  record of \<open>B\<close>.
\<close>

theorem both_merged_record_after_later_text:
  "rehypeLyra 3 exampleLib [] (noOptions\<lparr>mergeStrategy := Some Both\<rparr>)
     (twoParagraphs ''A'' ''B'') =
     Some (Inr [\<lparr>type_r = Some ''p'', content_r = ''A'', id_r = ''root[0].div[0]''\<rparr>,
                \<lparr>type_r = Some ''p'', content_r = ''B'', id_r = ''root[0].div[1]''\<rparr>,
                \<lparr>type_r = Some ''p'', content_r = ''A B'', id_r = ''root[0].div[0]''\<rparr>])
   \<and> treeTextVisits 3 exampleLib (noOptions\<lparr>mergeStrategy := Some Both\<rparr>)
       (twoParagraphs ''A'' ''B'') =
     Some (Inr [(''A'', Some ''p'', ''root[0].div[0].p[0]''),
                (''B'', Some ''p'', ''root[0].div[1].p[0]'')])
   \<and> originsAll Both 0
       [(''A'', Some ''p'', ''root[0].div[0].p[0]''),
        (''B'', Some ''p'', ''root[0].div[1].p[0]'')] [] [] = [[0], [1], [0, 1]]
   \<and> \<not> inTextOrder [[0], [1], [0, 1]]"
proof -
  have n: "\<not> inTextOrder [[0], [1], [0, 1]]"
  proof
    assume "inTextOrder [[0], [1], [0, 1]]"
    from this [unfolded inTextOrder_def, rule_format, of 2 1 0 1]
    show False by simp
  qed
  have r: "rehypeLyra 3 exampleLib [] (noOptions\<lparr>mergeStrategy := Some Both\<rparr>)
     (twoParagraphs ''A'' ''B'') =
     Some (Inr [\<lparr>type_r = Some ''p'', content_r = ''A'', id_r = ''root[0].div[0]''\<rparr>,
                \<lparr>type_r = Some ''p'', content_r = ''B'', id_r = ''root[0].div[1]''\<rparr>,
                \<lparr>type_r = Some ''p'', content_r = ''A B'', id_r = ''root[0].div[0]''\<rparr>])"
    by (simp add: run_simps eval_nat_numeral)
  have v: "treeTextVisits 3 exampleLib (noOptions\<lparr>mergeStrategy := Some Both\<rparr>)
       (twoParagraphs ''A'' ''B'') =
     Some (Inr [(''A'', Some ''p'', ''root[0].div[0].p[0]''),
                (''B'', Some ''p'', ''root[0].div[1].p[0]'')])"
    by (simp add: run_simps eval_nat_numeral)
  have o: "originsAll Both 0
       [(''A'', Some ''p'', ''root[0].div[0].p[0]''),
        (''B'', Some ''p'', ''root[0].div[1].p[0]'')] [] [] = [[0], [1], [0, 1]]"
    by (simp add: run_simps addOrigins_def)
  from r v o n show ?thesis by blast
qed

text \<open>
  C7, as amended. When a walk from an empty record list returns, every record carries the
  texts of its origins. Under merge and split the list is in the order of the text
  nodes: a record with a text visited earlier than a text of another record is no later
  in the list. Under both this holds for two records that share no text node, and in
  any case every text of a record was visited no later than some text of each record
  after it: the running-merged record stays behind the standalone records of its texts.
  No call of \<^verbatim>\<open>addRecords\<close> reorders the records already there: it appends, or it
  extends the last record, inserting at most just before it. Without a transform
  function the walk returns, given fuel for the depth of the tree.
\<close>

theorem visitation_order_preserved:
  "(rehypeLyra fuel lib [] options tree = Some (Inr records) \<longrightarrow>
      (\<exists>visits origins.
         treeTextVisits fuel lib options tree = Some (Inr visits)
         \<and> origins = originsAll (strategyOf options) 0 visits [] []
         \<and> length origins = length records
         \<and> (\<forall>i < length records. carries visits (records ! i) (origins ! i))
         \<and> (\<forall>i j. i < j \<longrightarrow> j < length records \<longrightarrow>
               inVisitOrder (origins ! i) (origins ! j))
         \<and> (strategyOf options \<noteq> Both \<longrightarrow> inTextOrder origins)))
   \<and> (addRecords cont tp path records0 strategy = Inr records1 \<longrightarrow>
        (\<exists>new. records1 = records0 @ new)
        \<or> (\<exists>new ext. records0 \<noteq> []
              \<and> records1 = butlast records0 @ new
                   @ [(last records0)\<lparr>content_r := content_r (last records0) @ ext\<rparr>]))
   \<and> (transformFn options = None \<longrightarrow> depthRoot tree \<le> fuel \<longrightarrow>
        (\<exists>result. rehypeLyra fuel lib [] options tree = Some (Inr result)))"
proof (intro conjI impI)
  assume "rehypeLyra fuel lib [] options tree = Some (Inr records)"
  then obtain visits origins where
      w: "treeTextVisits fuel lib options tree = Some (Inr visits)"
         "origins = originsAll (strategyOf options) 0 visits [] []"
         "length origins = length records"
         "\<forall>i < length records. carries visits (records ! i) (origins ! i)"
         "\<forall>i j. i < j \<longrightarrow> j < length records \<longrightarrow> inVisitOrder (origins ! i) (origins ! j)"
    using walk_origins by blast
  have "strategyOf options \<noteq> Both \<longrightarrow> inTextOrder origins"
    using walk_inTextOrder [of options visits] w(2) by simp
  with w show "\<exists>visits origins.
         treeTextVisits fuel lib options tree = Some (Inr visits)
         \<and> origins = originsAll (strategyOf options) 0 visits [] []
         \<and> length origins = length records
         \<and> (\<forall>i < length records. carries visits (records ! i) (origins ! i))
         \<and> (\<forall>i j. i < j \<longrightarrow> j < length records \<longrightarrow>
               inVisitOrder (origins ! i) (origins ! j))
         \<and> (strategyOf options \<noteq> Both \<longrightarrow> inTextOrder origins)"
    by blast
next
  assume "addRecords cont tp path records0 strategy = Inr records1"
  then show "(\<exists>new. records1 = records0 @ new)
        \<or> (\<exists>new ext. records0 \<noteq> []
              \<and> records1 = butlast records0 @ new
                   @ [(last records0)\<lparr>content_r := content_r (last records0) @ ext\<rparr>])"
    by (rule addRecords_keeps_order)
next
  assume "transformFn options = None" and "depthRoot tree \<le> fuel"
  then show "\<exists>result. rehypeLyra fuel lib [] options tree = Some (Inr result)"
    by (rule walk_plain_returns)
qed


theorem visitation_order_preserved_witness:
  "rehypeLyra 3 exampleLib [] (noOptions\<lparr>mergeStrategy := Some Both\<rparr>) threeTexts =
     Some (Inr [\<lparr>type_r = Some ''p'', content_r = ''A'', id_r = ''root[1].div[0]''\<rparr>,
                \<lparr>type_r = Some ''p'', content_r = ''B'', id_r = ''root[1].div[1]''\<rparr>,
                \<lparr>type_r = Some ''p'', content_r = ''C'', id_r = ''root[1].div[3]''\<rparr>,
                \<lparr>type_r = Some ''p'', content_r = ''A B C'', id_r = ''root[1].div[0]''\<rparr>])
   \<and> originsAll Both 0
        [(''A'', Some ''p'', ''root[1].div[0].p[0]''), (''B'', Some ''p'', ''root[1].div[1].p[0]''),
         (''C'', Some ''p'', ''root[1].div[3].p[0]'')] [] [] = [[0], [1], [2], [0, 1, 2]]
   \<and> carries
        [(''A'', Some ''p'', ''root[1].div[0].p[0]''), (''B'', Some ''p'', ''root[1].div[1].p[0]''),
         (''C'', Some ''p'', ''root[1].div[3].p[0]'')]
        \<lparr>type_r = Some ''p'', content_r = ''A B C'', id_r = ''root[1].div[0]''\<rparr> [0, 1, 2]
   \<and> inVisitOrder [1] [2]
   \<and> inVisitOrder [1] [0, 1, 2]
   \<and> strategyOf (noOptions\<lparr>mergeStrategy := Some Split\<rparr>) \<noteq> Both
   \<and> rehypeLyra 3 exampleLib [] (noOptions\<lparr>mergeStrategy := Some Split\<rparr>) threeTexts =
     Some (Inr [\<lparr>type_r = Some ''p'', content_r = ''A'', id_r = ''root[1].div[0]''\<rparr>,
                \<lparr>type_r = Some ''p'', content_r = ''B'', id_r = ''root[1].div[1]''\<rparr>,
                \<lparr>type_r = Some ''p'', content_r = ''C'', id_r = ''root[1].div[3]''\<rparr>])
   \<and> inTextOrder [[0], [1], [2]]"
proof -
  let ?o = "noOptions\<lparr>mergeStrategy := Some Both\<rparr>"
  let ?s = "noOptions\<lparr>mergeStrategy := Some Split\<rparr>"
  let ?A = "\<lparr>type_r = Some ''p'', content_r = ''A'', id_r = ''root[1].div[0]''\<rparr>"
  let ?B = "\<lparr>type_r = Some ''p'', content_r = ''B'', id_r = ''root[1].div[1]''\<rparr>"
  let ?C = "\<lparr>type_r = Some ''p'', content_r = ''C'', id_r = ''root[1].div[3]''\<rparr>"
  let ?M = "\<lparr>type_r = Some ''p'', content_r = ''A B C'', id_r = ''root[1].div[0]''\<rparr>"
  let ?vs = "[(''A'', Some ''p'', ''root[1].div[0].p[0]''),
              (''B'', Some ''p'', ''root[1].div[1].p[0]''),
              (''C'', Some ''p'', ''root[1].div[3].p[0]'')]"
  have run: "rehypeLyra 3 exampleLib [] ?o threeTexts = Some (Inr [?A, ?B, ?C, ?M])"
    by (simp add: run_simps threeTexts_def eval_nat_numeral)
  have vis: "treeTextVisits 3 exampleLib ?o threeTexts = Some (Inr ?vs)"
    by (simp add: run_simps threeTexts_def eval_nat_numeral)
  have org: "originsAll Both 0 ?vs [] [] = [[0], [1], [2], [0, 1, 2]]"
    by (simp add: run_simps addOrigins_def)
  have st: "strategyOf ?o = Both" by simp
  obtain visits origins where
      v: "treeTextVisits 3 exampleLib ?o threeTexts = Some (Inr visits)"
      and o: "origins = originsAll (strategyOf ?o) 0 visits [] []"
      and c: "\<forall>i < length [?A, ?B, ?C, ?M]. carries visits ([?A, ?B, ?C, ?M] ! i) (origins ! i)"
      and s: "\<forall>i j. i < j \<longrightarrow> j < length [?A, ?B, ?C, ?M] \<longrightarrow>
                inVisitOrder (origins ! i) (origins ! j)"
    using visitation_order_preserved [where fuel = 3 and lib = exampleLib and options = ?o
        and tree = threeTexts and records = "[?A, ?B, ?C, ?M]", THEN conjunct1, THEN mp, OF run]
    by (elim exE conjE)
  from v vis have visits: "visits = ?vs" by simp
  from o have origins: "origins = [[0], [1], [2], [0, 1, 2]]"
    unfolding visits st org .
  have c3: "carries ?vs ?M [0, 1, 2]"
    using c [rule_format, of 3] unfolding visits origins by simp
  have s12: "inVisitOrder [1] [2]"
    using s [rule_format, of 1 2] unfolding origins by simp
  have s13: "inVisitOrder [1] [0, 1, 2]"
    using s [rule_format, of 1 3] unfolding origins by simp
  have nb: "strategyOf ?s \<noteq> Both" by simp
  have run2: "rehypeLyra 3 exampleLib [] ?s threeTexts = Some (Inr [?A, ?B, ?C])"
    by (simp add: run_simps threeTexts_def eval_nat_numeral)
  have vis2: "treeTextVisits 3 exampleLib ?s threeTexts = Some (Inr ?vs)"
    by (simp add: run_simps threeTexts_def eval_nat_numeral)
  have org2: "originsAll Split 0 ?vs [] [] = [[0], [1], [2]]"
    by (simp add: run_simps addOrigins_def)
  have st2: "strategyOf ?s = Split" by simp
  obtain visits2 origins2 where
      v2: "treeTextVisits 3 exampleLib ?s threeTexts = Some (Inr visits2)"
      and o2: "origins2 = originsAll (strategyOf ?s) 0 visits2 [] []"
      and a2: "strategyOf ?s \<noteq> Both \<longrightarrow> inTextOrder origins2"
    using visitation_order_preserved [where fuel = 3 and lib = exampleLib and options = ?s
        and tree = threeTexts and records = "[?A, ?B, ?C]", THEN conjunct1, THEN mp, OF run2]
    by (elim exE conjE)
  from v2 vis2 have visits2: "visits2 = ?vs" by simp
  from o2 have origins2: "origins2 = [[0], [1], [2]]"
    unfolding visits2 st2 org2 .
  have a02: "inTextOrder [[0], [1], [2]]"
    using a2 [rule_format, OF nb] unfolding origins2 .
  from run org c3 s12 s13 nb run2 a02 show ?thesis by blast
qed

section \<open>Paths\<close>

lemma concat_map_upt_Suc:
  "concat (map f [0..<Suc n]) = f 0 @ concat (map (\<lambda>i. f (Suc i)) [0..<n])"
proof -
  have "[0..<Suc n] = 0 # map Suc [0..<n]"
    by (simp add: upt_conv_Cons map_Suc_upt del: upt_Suc)
  then show ?thesis
    by (simp add: comp_def del: upt_Suc)
qed

lemma textVisits_paths:
  "transformFn options = None \<Longrightarrow> depth nd \<le> fuel \<Longrightarrow>
   textVisits fuel lib nd parentTag path options = Some (Inr (pathVisits nd parentTag path))"
  and childTextVisits_paths:
  "transformFn options = None \<Longrightarrow> \<forall>c \<in> set children. depth c \<le> fuel \<Longrightarrow>
   childTextVisits fuel lib children tagName path i options =
     Some (Inr (concat (map (\<lambda>k. pathVisits (children ! k) (Some tagName)
                                  (childPath path tagName (i + k)))
                          [0..<length children])))"
proof (induction fuel lib nd parentTag path options
         and fuel lib children tagName path i options
       rule: textVisits_childTextVisits.induct)
  case (1 lib nd parentTag path options)
  then show ?case by (cases nd) simp_all
next
  case (2 fuel lib nd parentTag path options)
  show ?case
  proof (cases nd)
    case (Element t ps cs)
    have r: "(case transformFn options of
                None \<Rightarrow> Some nd
              | Some f \<Rightarrow> applyTransform lib nd f) = Some nd"
      using 2(2) by simp
    have "\<forall>c \<in> set cs. depth c \<le> fuel"
      using 2(3) Element depth_le_foldr_max [of _ cs] by fastforce
    from 2(1) [OF Element r Element 2(2) this]
    show ?thesis
      using Element 2(2) by simp
  qed simp_all
next
  case (3 fuel lib tagName path i options)
  show ?case by simp
next
  case (4 fuel lib child rest tagName path i options)
  let ?p = "path @ ''.'' @ tagName @ ''['' @ numToString i @ '']''"
  have vs: "textVisits fuel lib child (Some tagName) ?p options =
              Some (Inr (pathVisits child (Some tagName) ?p))"
    using 4(1) [OF 4(3)] 4(4) by simp
  have ws: "childTextVisits fuel lib rest tagName path (Suc i) options =
              Some (Inr (concat (map (\<lambda>k. pathVisits (rest ! k) (Some tagName)
                                           (childPath path tagName (Suc i + k)))
                                   [0..<length rest])))"
    using 4(2) [OF vs refl 4(3)] 4(4) by simp
  have "concat (map (\<lambda>k. pathVisits ((child # rest) ! k) (Some tagName)
                           (childPath path tagName (i + k)))
                  [0..<Suc (length rest)]) =
        pathVisits child (Some tagName) ?p
        @ concat (map (\<lambda>k. pathVisits (rest ! k) (Some tagName)
                                (childPath path tagName (Suc i + k)))
                      [0..<length rest])"
    by (subst concat_map_upt_Suc) (simp add: childPath_def)
  then show ?case
    using vs ws by (simp del: upt_Suc)
qed

lemma rootTextVisits_paths:
  "transformFn options = None \<Longrightarrow> \<forall>c \<in> set children. depth c \<le> fuel \<Longrightarrow>
   rootTextVisits fuel lib children i options =
     Some (Inr (concat (map (\<lambda>k. pathVisits (children ! k) None
                                  (rootPath (basePathOf options) (i + k)))
                          [0..<length children])))"
proof (induction children arbitrary: i)
  case Nil
  show ?case by simp
next
  case (Cons child rest)
  let ?p = "basePathOf options @ ''root['' @ numToString i @ '']''"
  have vs: "textVisits fuel lib child None ?p options = Some (Inr (pathVisits child None ?p))"
    using textVisits_paths [OF Cons(2), of child fuel lib None ?p] Cons(3) by simp
  have ws: "rootTextVisits fuel lib rest (Suc i) options =
              Some (Inr (concat (map (\<lambda>k. pathVisits (rest ! k) None
                                           (rootPath (basePathOf options) (Suc i + k)))
                                   [0..<length rest])))"
    using Cons(1) [OF Cons(2), of "Suc i"] Cons(3) by simp
  have "concat (map (\<lambda>k. pathVisits ((child # rest) ! k) None
                           (rootPath (basePathOf options) (i + k)))
                  [0..<Suc (length rest)]) =
        pathVisits child None ?p
        @ concat (map (\<lambda>k. pathVisits (rest ! k) None
                                (rootPath (basePathOf options) (Suc i + k)))
                      [0..<length rest])"
    by (subst concat_map_upt_Suc) (simp add: rootPath_def)
  then show ?case
    using vs ws by (simp del: upt_Suc)
qed

lemma treeTextVisits_paths:
  assumes "transformFn options = None" and "depthRoot tree \<le> fuel"
  shows "treeTextVisits fuel lib options tree =
           Some (Inr (rootPathVisits (basePathOf options) tree))"
proof (cases tree)
  case (Root children)
  have "\<forall>c \<in> set children. depth c \<le> fuel"
    using assms(2) Root depth_le_foldr_max [of _ children] by fastforce
  from rootTextVisits_paths [OF assms(1) this, of lib 0] Root show ?thesis
    by simp
qed

lemma rehypeLyra_paths:
  assumes "transformFn options = None" and "depthRoot tree \<le> fuel"
  shows "rehypeLyra fuel lib records options tree =
           Some (addAll (strategyOf options) (rootPathVisits (basePathOf options) tree) records)"
  using treeTextVisits_paths [OF assms] by (simp add: rehypeLyra_link)

lemma digitChar_value: "d < 10 \<Longrightarrow> of_char (digitChar d) - 48 = d"
proof -
  assume "d < 10"
  then have "d \<in> {0, 1, 2, 3, 4, 5, 6, 7, 8, 9}" by auto
  then show ?thesis
    by (auto simp: digitChar_def)
qed

lemma digitChar_nonzero: "d < 10 \<Longrightarrow> d \<noteq> 0 \<Longrightarrow> digitChar d \<noteq> CHR ''0''"
proof -
  assume "d < 10" and "d \<noteq> 0"
  then have "d \<in> {1, 2, 3, 4, 5, 6, 7, 8, 9}" by auto
  then show ?thesis
    by (auto simp: digitChar_def)
qed

lemma numToString_nonempty: "numToString n \<noteq> []"
  by (subst numToString.simps) simp

lemma natOfDecimal_numToString: "natOfDecimal (numToString n) = n"
proof (induction n rule: numToString.induct)
  case (1 n)
  show ?case
  proof (cases "n < 10")
    case True
    then show ?thesis
      by (subst numToString.simps) (simp add: natOfDecimal_def digitChar_value)
  next
    case False
    have "n mod 10 < 10" by simp
    then have "of_char (digitChar (n mod 10)) - 48 = n mod 10"
      by (rule digitChar_value)
    with 1 [OF False] False show ?thesis
      by (subst numToString.simps) (simp add: natOfDecimal_def)
  qed
qed

lemma numToString_no_leading_zero: "n \<noteq> 0 \<Longrightarrow> hd (numToString n) \<noteq> CHR ''0''"
proof (induction n rule: numToString.induct)
  case (1 n)
  show ?case
  proof (cases "n < 10")
    case True
    with 1(2) show ?thesis
      by (subst numToString.simps) (simp add: digitChar_nonzero)
  next
    case False
    then have "n div 10 \<noteq> 0" by simp
    with 1(1) [OF False] False show ?thesis
      by (subst numToString.simps) (simp add: numToString_nonempty)
  qed
qed

lemma forEachChild_append:
  "forEachChild fuel lib (xs @ ys) t p i records options =
     (case forEachChild fuel lib xs t p i records options of
        Some (Inr r) \<Rightarrow> forEachChild fuel lib ys t p (i + length xs) r options
      | failed \<Rightarrow> failed)"
  by (induction xs arbitrary: i records) (auto split: option.splits sum.splits)

lemma forEachRoot_append:
  "forEachRoot fuel lib (xs @ ys) i records options =
     (case forEachRoot fuel lib xs i records options of
        Some (Inr r) \<Rightarrow> forEachRoot fuel lib ys (i + length xs) r options
      | failed \<Rightarrow> failed)"
  by (induction xs arbitrary: i records) (auto split: option.splits sum.splits)

lemma forEachChild_nth:
  "forEachChild fuel lib (before @ child # after) t p 0 records options =
     (case forEachChild fuel lib before t p 0 records options of
        Some (Inr r1) \<Rightarrow>
          (case visitChildren fuel lib child (Some t)
                  (p @ ''.'' @ t @ ''['' @ numToString (length before) @ '']'') r1 options of
             Some (Inr r2) \<Rightarrow> forEachChild fuel lib after t p (Suc (length before)) r2 options
           | failed \<Rightarrow> failed)
      | failed \<Rightarrow> failed)"
  by (simp add: forEachChild_append split: option.splits sum.splits)

lemma rehypeLyra_nth:
  "rehypeLyra fuel lib records options (Root (before @ child # after)) =
     (case forEachRoot fuel lib before 0 records options of
        Some (Inr r1) \<Rightarrow>
          (case visitChildren fuel lib child None
                  (basePathOf options @ ''root['' @ numToString (length before) @ '']'')
                  r1 options of
             Some (Inr r2) \<Rightarrow> forEachRoot fuel lib after (Suc (length before)) r2 options
           | failed \<Rightarrow> failed)
      | failed \<Rightarrow> failed)"
  by (simp add: forEachRoot_append split: option.splits sum.splits)

lemma visitChildren_element:
  "(case transformFn options of
      Some f \<Rightarrow> applyTransform lib (Element t0 ps0 cs0) f
    | None \<Rightarrow> Some (Element t0 ps0 cs0)) = Some (Element t ps cs) \<Longrightarrow>
   visitChildren (Suc fuel) lib (Element t0 ps0 cs0) parentTag p records options =
     forEachChild fuel lib cs t p 0 records options"
  by simp

text \<open>
  C8. For every document walked without a transform function the text visits of the walk are
  those of \<open>pathVisits\<close>, and the records are the result of performing them in order:
  the node at sibling index \<open>i\<close> under a parent with path \<open>p\<close> and tag \<open>t\<close> is
  visited with the path \<open>p.t[i]\<close>, and the top-level child \<open>i\<close> of the root with the
  base path (empty when absent) followed by \<open>root[i]\<close>. With a transform function
  the children an element is walked through are those of the reconciled node, under its
  tag and the element's own path, and each loop visits the child after \<open>i\<close> earlier
  siblings with index \<open>i\<close>. The index is written as its decimal numeral, without
  leading zero.
\<close>

theorem child_paths:
  "(transformFn options = None \<longrightarrow> depthRoot tree \<le> fuel \<longrightarrow>
      treeTextVisits fuel lib options tree =
        Some (Inr (rootPathVisits (basePathOf options) tree))
      \<and> rehypeLyra fuel lib records options tree =
          Some (addAll (strategyOf options) (rootPathVisits (basePathOf options) tree) records))
   \<and> ((case transformFn options of
          Some f \<Rightarrow> applyTransform lib (Element t0 ps0 cs0) f
        | None \<Rightarrow> Some (Element t0 ps0 cs0)) = Some (Element t ps cs) \<longrightarrow>
       visitChildren (Suc fuel) lib (Element t0 ps0 cs0) parentTag p records options =
         forEachChild fuel lib cs t p 0 records options)
   \<and> forEachChild fuel lib (before @ child # after) t p 0 records options =
       (case forEachChild fuel lib before t p 0 records options of
          Some (Inr r1) \<Rightarrow>
            (case visitChildren fuel lib child (Some t) (childPath p t (length before)) r1
                    options of
               Some (Inr r2) \<Rightarrow> forEachChild fuel lib after t p (Suc (length before)) r2 options
             | failed \<Rightarrow> failed)
        | failed \<Rightarrow> failed)
   \<and> rehypeLyra fuel lib records options (Root (before @ child # after)) =
       (case forEachRoot fuel lib before 0 records options of
          Some (Inr r1) \<Rightarrow>
            (case visitChildren fuel lib child None
                    (rootPath (basePathOf options) (length before)) r1 options of
               Some (Inr r2) \<Rightarrow> forEachRoot fuel lib after (Suc (length before)) r2 options
             | failed \<Rightarrow> failed)
        | failed \<Rightarrow> failed)
   \<and> natOfDecimal (numToString i) = i
   \<and> set (numToString i) \<subseteq> set ''0123456789''
   \<and> (i \<noteq> 0 \<longrightarrow> hd (numToString i) \<noteq> CHR ''0'')"
proof (intro conjI impI)
  assume "transformFn options = None" and "depthRoot tree \<le> fuel"
  then show "treeTextVisits fuel lib options tree =
        Some (Inr (rootPathVisits (basePathOf options) tree))"
    by (rule treeTextVisits_paths)
next
  assume "transformFn options = None" and "depthRoot tree \<le> fuel"
  then show "rehypeLyra fuel lib records options tree =
          Some (addAll (strategyOf options) (rootPathVisits (basePathOf options) tree) records)"
    by (rule rehypeLyra_paths)
next
  assume "(case transformFn options of
          Some f \<Rightarrow> applyTransform lib (Element t0 ps0 cs0) f
        | None \<Rightarrow> Some (Element t0 ps0 cs0)) = Some (Element t ps cs)"
  then show "visitChildren (Suc fuel) lib (Element t0 ps0 cs0) parentTag p records options =
         forEachChild fuel lib cs t p 0 records options"
    by (rule visitChildren_element)
next
  show "forEachChild fuel lib (before @ child # after) t p 0 records options =
       (case forEachChild fuel lib before t p 0 records options of
          Some (Inr r1) \<Rightarrow>
            (case visitChildren fuel lib child (Some t) (childPath p t (length before)) r1
                    options of
               Some (Inr r2) \<Rightarrow> forEachChild fuel lib after t p (Suc (length before)) r2 options
             | failed \<Rightarrow> failed)
        | failed \<Rightarrow> failed)"
    unfolding childPath_def by (rule forEachChild_nth)
next
  show "rehypeLyra fuel lib records options (Root (before @ child # after)) =
       (case forEachRoot fuel lib before 0 records options of
          Some (Inr r1) \<Rightarrow>
            (case visitChildren fuel lib child None
                    (rootPath (basePathOf options) (length before)) r1 options of
               Some (Inr r2) \<Rightarrow> forEachRoot fuel lib after (Suc (length before)) r2 options
             | failed \<Rightarrow> failed)
        | failed \<Rightarrow> failed)"
    unfolding rootPath_def by (rule rehypeLyra_nth)
next
  show "natOfDecimal (numToString i) = i"
    by (rule natOfDecimal_numToString)
next
  show "set (numToString i) \<subseteq> set ''0123456789''"
    by (rule numToString_digits)
next
  assume "i \<noteq> 0"
  then show "hd (numToString i) \<noteq> CHR ''0''"
    by (rule numToString_no_leading_zero)
qed

theorem child_paths_witness:
  "transformFn \<lparr>transformFn = None, mergeStrategy = Some Split,
                 basePath = Some ''tests/x.html/''\<rparr> = None
   \<and> depthRoot threeTexts \<le> 3
   \<and> rootPathVisits ''tests/x.html/'' threeTexts =
       [(''A'', Some ''p'', ''tests/x.html/root[1].div[0].p[0]''),
        (''B'', Some ''p'', ''tests/x.html/root[1].div[1].p[0]''),
        (''C'', Some ''p'', ''tests/x.html/root[1].div[3].p[0]'')]
   \<and> rehypeLyra 3 exampleLib []
         \<lparr>transformFn = None, mergeStrategy = Some Split,
          basePath = Some ''tests/x.html/''\<rparr> threeTexts =
       Some (Inr [\<lparr>type_r = Some ''p'', content_r = ''A'', id_r = ''tests/x.html/root[1].div[0]''\<rparr>,
                  \<lparr>type_r = Some ''p'', content_r = ''B'', id_r = ''tests/x.html/root[1].div[1]''\<rparr>,
                  \<lparr>type_r = Some ''p'', content_r = ''C'', id_r = ''tests/x.html/root[1].div[3]''\<rparr>])
   \<and> (case transformFn \<lparr>transformFn = Some headingToDiv, mergeStrategy = None,
                            basePath = None\<rparr> of
        Some f \<Rightarrow> applyTransform exampleLib (Element ''h1'' [] [Text ''Heading'']) f
      | None \<Rightarrow> Some (Element ''h1'' [] [Text ''Heading'']))
       = Some (Element ''div'' [] [Element ''p'' [] [Text ''Hello'']])
   \<and> visitChildren 3 exampleLib (Element ''h1'' [] [Text ''Heading'']) (Some ''body'')
         ''root[0].html[1].body[0]'' []
         \<lparr>transformFn = Some headingToDiv, mergeStrategy = None, basePath = None\<rparr> =
       Some (Inr [\<lparr>type_r = Some ''p'', content_r = ''Hello'',
                   id_r = ''root[0].html[1].body[0].div[0]''\<rparr>])
   \<and> (12 :: nat) \<noteq> 0
   \<and> numToString 12 = ''12''
   \<and> natOfDecimal ''12'' = 12
   \<and> hd ''12'' \<noteq> CHR ''0''"
proof -
  let ?o = "\<lparr>transformFn = None, mergeStrategy = Some Split,
            basePath = Some ''tests/x.html/''\<rparr>"
  let ?u = "\<lparr>transformFn = Some headingToDiv, mergeStrategy = None, basePath = None\<rparr>"
  let ?h = "Element ''h1'' [] [Text ''Heading'']"
  let ?vs = "[(''A'', Some ''p'', ''tests/x.html/root[1].div[0].p[0]''),
              (''B'', Some ''p'', ''tests/x.html/root[1].div[1].p[0]''),
              (''C'', Some ''p'', ''tests/x.html/root[1].div[3].p[0]'')]"
  have h1: "transformFn ?o = None" by simp
  have h2: "depthRoot threeTexts \<le> 3" by (simp add: threeTexts_def)
  note t = child_paths [where options = ?o and tree = threeTexts and fuel = 3
      and lib = exampleLib and records = "[]"]
  note a = t [THEN conjunct1, THEN mp, OF h1, THEN mp, OF h2]
  have b: "basePathOf ?o = ''tests/x.html/''" and s: "strategyOf ?o = Split" by simp_all
  have ev: "treeTextVisits 3 exampleLib ?o threeTexts = Some (Inr ?vs)"
    by (simp add: run_simps threeTexts_def eval_nat_numeral)
  have vs: "rootPathVisits ''tests/x.html/'' threeTexts = ?vs"
    using a [THEN conjunct1] unfolding b ev by simp
  have run: "rehypeLyra 3 exampleLib [] ?o threeTexts = Some (addAll Split ?vs [])"
    using a [THEN conjunct2] unfolding b s vs .
  have run': "rehypeLyra 3 exampleLib [] ?o threeTexts =
       Some (Inr [\<lparr>type_r = Some ''p'', content_r = ''A'', id_r = ''tests/x.html/root[1].div[0]''\<rparr>,
                  \<lparr>type_r = Some ''p'', content_r = ''B'', id_r = ''tests/x.html/root[1].div[1]''\<rparr>,
                  \<lparr>type_r = Some ''p'', content_r = ''C'', id_r = ''tests/x.html/root[1].div[3]''\<rparr>])"
    unfolding run by (simp add: addRecords_def substring_def Let_def)
  have h3: "(case transformFn ?u of
               Some f \<Rightarrow> applyTransform exampleLib ?h f
             | None \<Rightarrow> Some ?h) = Some (Element ''div'' [] [Element ''p'' [] [Text ''Hello'']])"
    by (simp add: applyTransform_def headingToDiv_def exampleLib_def exampleFromHtml_def)
  note u = child_paths [where options = ?u and fuel = "Suc (Suc 0)" and lib = exampleLib
      and records = "[]" and ?t0.0 = "''h1''" and ?ps0.0 = "[]" and ?cs0.0 = "[Text ''Heading'']"
      and t = "''div''" and ps = "[]" and cs = "[Element ''p'' [] [Text ''Hello'']]"
      and p = "''root[0].html[1].body[0]''" and parentTag = "Some ''body''"]
  have c: "visitChildren (Suc (Suc (Suc 0))) exampleLib ?h (Some ''body'')
             ''root[0].html[1].body[0]'' [] ?u =
           forEachChild (Suc (Suc 0)) exampleLib [Element ''p'' [] [Text ''Hello'']] ''div''
             ''root[0].html[1].body[0]'' 0 [] ?u"
    by (rule u [THEN conjunct2, THEN conjunct1, THEN mp, OF h3])
  have c': "visitChildren 3 exampleLib ?h (Some ''body'') ''root[0].html[1].body[0]'' [] ?u =
       Some (Inr [\<lparr>type_r = Some ''p'', content_r = ''Hello'',
                   id_r = ''root[0].html[1].body[0].div[0]''\<rparr>])"
  proof -
    have three: "(3 :: nat) = Suc (Suc (Suc 0))" by simp
    show ?thesis
      unfolding three c
      by (simp add: run_simps applyTransform_def headingToDiv_def exampleLib_def
            exampleFromHtml_def)
  qed
  note n = t [where i = 12, THEN conjunct2, THEN conjunct2, THEN conjunct2, THEN conjunct2]
  have n12: "numToString 12 = ''12''"
    by (simp add: numToString.simps digitChar_def)
  have nz: "(12 :: nat) \<noteq> 0" by simp
  have d: "natOfDecimal ''12'' = 12"
    using n [THEN conjunct1] unfolding n12 .
  have z: "hd ''12'' \<noteq> CHR ''0''"
    using n [THEN conjunct2, THEN conjunct2, THEN mp, OF nz] unfolding n12 .
  from h1 h2 vs run' h3 c' nz n12 d z show ?thesis by blast
qed

section \<open>Record ids\<close>

text \<open>
  C6, the failing input. The transform function of the repository's tag test renames the
  heading, here to \<^verbatim>\<open>section.title\<close>. The text of the heading then has the path
  \<^verbatim>\<open>...body[0].section.title[0]\<close> and its parent element has the path
  \<^verbatim>\<open>...body[0]\<close>, the id the same walk gives when the new tag is \<^verbatim>\<open>h2\<close>; but the
  record gets the id \<^verbatim>\<open>...body[0].section\<close>: the path is cut at the dot inside the
  tag name. For a parent tag without a dot the id is the parent's path
  (\<open>parentPath_child\<close>).
\<close>

theorem dotted_tag_record_id:
  "rehypeLyra (Suc (Suc (Suc (Suc fuel)))) exampleLib []
     \<lparr>transformFn = Some (renameHeading ''section.title''), mergeStrategy = None,
      basePath = Some ''tests/fixtures/h1.html/''\<rparr> headingPage =
     Some (Inr [\<lparr>type_r = Some ''section.title'', content_r = ''Heading'',
                 id_r = ''tests/fixtures/h1.html/root[0].html[1].body[0].section''\<rparr>])
   \<and> treeTextVisits (Suc (Suc (Suc (Suc fuel)))) exampleLib
       \<lparr>transformFn = Some (renameHeading ''section.title''), mergeStrategy = None,
        basePath = Some ''tests/fixtures/h1.html/''\<rparr> headingPage =
     Some (Inr [(''Heading'', Some ''section.title'',
                 ''tests/fixtures/h1.html/root[0].html[1].body[0].section.title[0]'')])
   \<and> rehypeLyra (Suc (Suc (Suc (Suc fuel)))) exampleLib []
     \<lparr>transformFn = Some (renameHeading ''h2''), mergeStrategy = None,
      basePath = Some ''tests/fixtures/h1.html/''\<rparr> headingPage =
     Some (Inr [\<lparr>type_r = Some ''h2'', content_r = ''Heading'',
                 id_r = ''tests/fixtures/h1.html/root[0].html[1].body[0]''\<rparr>])"
  by (simp add: headingPage_def renameHeading_def exampleLib_def applyTransform_def
        run_simps)

lemma parentPath_root:
  "parentPathOf (b @ ''root['' @ numToString i @ '']'') = substring b 0 (lastIndexOf b (CHR ''.''))"
proof -
  have "CHR ''.'' \<notin> set (''root['' @ numToString i @ '']'')"
    using numToString_no_dot [of i] by simp
  then have "lastIndexOf (b @ ''root['' @ numToString i @ '']'') (CHR ''.'') =
               lastIndexOf b (CHR ''.'')"
    by (simp only: lastIndexOf_append if_False)
  moreover have "lastIndexOf b (CHR ''.'') < int (length b)"
    using lastIndexOf_bounds [of b] by simp
  ultimately show ?thesis
    by (simp add: substring_0)
qed

lemma parentPath_root_no_base: "parentPathOf (''root['' @ numToString i @ '']'') = []"
  using parentPath_root [of "[]" i] by (simp add: substring_0)

lemma forEachRoot_text:
  "forEachRoot (Suc fuel) lib (Text v # rest) i records options =
     (case addRecords v None (basePathOf options @ ''root['' @ numToString i @ '']'') records
             (strategyOf options) of
        Inr records' \<Rightarrow> forEachRoot (Suc fuel) lib rest (Suc i) records' options
      | Inl e \<Rightarrow> Some (Inl e))"
  by (simp split: sum.splits)

lemma addRecords_ids:
  "\<exists>records'. addRecords cont tp path records s = Inr records'
     \<and> (\<lparr>type_r = tp, content_r = cont, id_r = parentPathOf path\<rparr> \<in> set records'
          \<or> s = Merge \<and> isRecordMergeable (parentPathOf path) tp records)
     \<and> (\<forall>r \<in> set records'. id_r r = parentPathOf path \<or> id_r r \<in> id_r ` set records)"
proof (cases "isRecordMergeable (parentPathOf path) tp records")
  case True
  then have ne: "records \<noteq> []" by (rule isRecordMergeable_nonempty)
  then have "id_r ` set records = id_r ` set (butlast records) \<union> {id_r (last records)}"
    by (induction records rule: rev_induct) auto
  then show ?thesis
    using True
    by (cases s) (auto simp: addRecords_Merge_mergeable addRecords_Split addRecords_Both_mergeable)
next
  case False
  then show ?thesis
    by (cases s) (auto simp: addRecords_Merge_new addRecords_Split addRecords_Both_new)
qed

lemma forEachRoot_plain_returns:
  assumes "transformFn options = None" and "\<forall>c \<in> set children. depth c \<le> fuel"
  shows "\<exists>result. forEachRoot fuel lib children i records options = Some (Inr result)"
proof -
  obtain vs where "rootTextVisits fuel lib children i options = Some (Inr vs)"
    using rootTextVisits_plain [OF assms] by blast
  then show ?thesis
    using addAll_total [of "strategyOf options" vs records] by (auto simp: forEachRoot_link)
qed

lemma root_single_text_walk:
  "rehypeLyra (Suc fuel) lib [] options (Root [Text v]) =
     Some (Inr (if strategyOf options = Both
                then [\<lparr>type_r = None, content_r = v,
                        id_r = substring (basePathOf options) 0
                                 (lastIndexOf (basePathOf options) (CHR ''.''))\<rparr>,
                      \<lparr>type_r = None, content_r = v,
                        id_r = substring (basePathOf options) 0
                                 (lastIndexOf (basePathOf options) (CHR ''.''))\<rparr>]
                else [\<lparr>type_r = None, content_r = v,
                        id_r = substring (basePathOf options) 0
                                 (lastIndexOf (basePathOf options) (CHR ''.''))\<rparr>]))"
proof -
  let ?p = "basePathOf options @ ''root['' @ numToString 0 @ '']''"
  have n: "\<not> isRecordMergeable (parentPathOf ?p) None []"
    by (simp add: isRecordMergeable_def)
  have id: "parentPathOf ?p =
              substring (basePathOf options) 0 (lastIndexOf (basePathOf options) (CHR ''.''))"
    by (rule parentPath_root)
  have "addRecords v None ?p [] (strategyOf options) =
          Inr (if strategyOf options = Both
               then [\<lparr>type_r = None, content_r = v, id_r = parentPathOf ?p\<rparr>,
                     \<lparr>type_r = None, content_r = v, id_r = parentPathOf ?p\<rparr>]
               else [\<lparr>type_r = None, content_r = v, id_r = parentPathOf ?p\<rparr>])"
    using addRecords_Merge_new [OF n, of v] addRecords_Both_new [OF n, of v]
      addRecords_Split [of v None ?p "[]"]
    by (cases "strategyOf options") simp_all
  then show ?thesis
    unfolding id by (simp split: if_splits)
qed

lemma root_text_visit:
  assumes plain: "transformFn options = None"
      and d: "depthRoot (Root (before @ Text v # after)) \<le> fuel"
  shows "\<exists>r1 r2 r3.
           forEachRoot fuel lib before 0 records options = Some (Inr r1)
           \<and> addRecords v None (rootPath (basePathOf options) (length before)) r1
                 (strategyOf options) = Inr r2
           \<and> forEachRoot fuel lib after (Suc (length before)) r2 options = Some (Inr r3)
           \<and> rehypeLyra fuel lib records options (Root (before @ Text v # after)) = Some (Inr r3)
           \<and> (\<lparr>type_r = None, content_r = v,
                 id_r = substring (basePathOf options) 0
                          (lastIndexOf (basePathOf options) (CHR ''.''))\<rparr> \<in> set r2
                \<or> strategyOf options = Merge
                  \<and> isRecordMergeable
                        (substring (basePathOf options) 0
                           (lastIndexOf (basePathOf options) (CHR ''.''))) None r1)
           \<and> (\<forall>r \<in> set r2.
                 id_r r = substring (basePathOf options) 0
                            (lastIndexOf (basePathOf options) (CHR ''.''))
                 \<or> id_r r \<in> id_r ` set r1)"
proof -
  let ?b = "basePathOf options"
  let ?p = "?b @ ''root['' @ numToString (length before) @ '']''"
  have all: "\<forall>c \<in> set (before @ Text v # after). depth c \<le> fuel"
    using d depth_le_foldr_max [of _ "before @ Text v # after"] by fastforce
  then have "depth (Text v) \<le> fuel" by simp
  then obtain n where fuel: "fuel = Suc n" by (cases fuel) simp_all
  have bf: "\<forall>c \<in> set before. depth c \<le> fuel" and af: "\<forall>c \<in> set after. depth c \<le> fuel"
    using all by simp_all
  obtain r1 where r1: "forEachRoot fuel lib before 0 records options = Some (Inr r1)"
    using forEachRoot_plain_returns [OF plain bf] by blast
  obtain r2 where r2: "addRecords v None ?p r1 (strategyOf options) = Inr r2"
      and new: "\<lparr>type_r = None, content_r = v, id_r = parentPathOf ?p\<rparr> \<in> set r2
                \<or> strategyOf options = Merge \<and> isRecordMergeable (parentPathOf ?p) None r1"
      and ids: "\<forall>r \<in> set r2. id_r r = parentPathOf ?p \<or> id_r r \<in> id_r ` set r1"
    using addRecords_ids [of v None ?p r1 "strategyOf options"] by blast
  obtain r3 where r3: "forEachRoot fuel lib after (Suc (length before)) r2 options = Some (Inr r3)"
    using forEachRoot_plain_returns [OF plain af] by blast
  have v: "visitChildren fuel lib (Text v) None ?p r1 options = Some (Inr r2)"
    using r2 by (simp add: fuel)
  have w: "rehypeLyra fuel lib records options (Root (before @ Text v # after)) = Some (Inr r3)"
    unfolding rehypeLyra_nth using r1 v r3 by simp
  have id: "parentPathOf ?p = substring ?b 0 (lastIndexOf ?b (CHR ''.''))"
    by (rule parentPath_root)
  show ?thesis
    using r1 r2 r3 w new ids unfolding id rootPath_def by blast
qed

lemma addRecords_keeps_keys:
  assumes "addRecords cont tp path rs s = Inr rs'"
  shows "(\<lambda>r. (type_r r, id_r r)) ` set rs \<subseteq> (\<lambda>r. (type_r r, id_r r)) ` set rs'"
  using addRecords_keeps_order [OF assms]
proof (elim disjE exE conjE)
  fix new
  assume "rs' = rs @ new"
  then show ?thesis by auto
next
  fix new ext
  assume ne: "rs \<noteq> []"
    and eq: "rs' = butlast rs @ new @ [(last rs)\<lparr>content_r := content_r (last rs) @ ext\<rparr>]"
  have "set rs = set (butlast rs) \<union> {last rs}"
    using ne by (induction rs rule: rev_induct) auto
  then have "(\<lambda>r. (type_r r, id_r r)) ` set rs =
               (\<lambda>r. (type_r r, id_r r)) ` set (butlast rs) \<union> {(type_r (last rs), id_r (last rs))}"
    by simp
  moreover have "(\<lambda>r. (type_r r, id_r r)) ` set rs' =
               (\<lambda>r. (type_r r, id_r r)) ` set (butlast rs) \<union> (\<lambda>r. (type_r r, id_r r)) ` set new
                 \<union> {(type_r (last rs), id_r (last rs))}"
    unfolding eq by (simp add: image_Un Un_commute Un_left_commute)
  ultimately show ?thesis by blast
qed

lemma addAll_keeps_keys:
  "addAll s vs rs = Inr rs' \<Longrightarrow>
   (\<lambda>r. (type_r r, id_r r)) ` set rs \<subseteq> (\<lambda>r. (type_r r, id_r r)) ` set rs'"
proof (induction vs arbitrary: rs)
  case Nil
  then show ?case by simp
next
  case (Cons v vs)
  obtain cont tp path where v: "v = (cont, tp, path)" by (cases v)
  obtain r1 where r1: "addRecords cont tp path rs s = Inr r1"
    using addRecords_total by blast
  from Cons.prems v r1 have "addAll s vs r1 = Inr rs'" by simp
  from addRecords_keeps_keys [OF r1] Cons.IH [OF this] show ?case by (rule subset_trans)
qed

lemma forEachRoot_keeps_keys:
  assumes "forEachRoot fuel lib children i rs options = Some (Inr rs')"
  shows "(\<lambda>r. (type_r r, id_r r)) ` set rs \<subseteq> (\<lambda>r. (type_r r, id_r r)) ` set rs'"
proof (cases "rootTextVisits fuel lib children i options")
  case None
  with assms show ?thesis by (simp add: forEachRoot_link)
next
  case (Some res)
  show ?thesis
  proof (cases res)
    case (Inl e)
    with Some assms show ?thesis by (simp add: forEachRoot_link)
  next
    case (Inr vs)
    with Some assms have "addAll (strategyOf options) vs rs = Inr rs'"
      by (simp add: forEachRoot_link)
    then show ?thesis by (rule addAll_keeps_keys)
  qed
qed

lemma root_text_walk:
  assumes plain: "transformFn options = None"
      and d: "depthRoot (Root (before @ Text v # after)) \<le> fuel"
  shows "\<exists>result.
           rehypeLyra fuel lib records options (Root (before @ Text v # after)) = Some (Inr result)
           \<and> ((None, substring (basePathOf options) 0
                        (lastIndexOf (basePathOf options) (CHR ''.'')))
                 \<in> (\<lambda>r. (type_r r, id_r r)) ` set result
                \<or> strategyOf options = Merge
                  \<and> (\<exists>r1. forEachRoot fuel lib before 0 records options = Some (Inr r1)
                        \<and> isRecordMergeable
                              (substring (basePathOf options) 0
                                 (lastIndexOf (basePathOf options) (CHR ''.''))) None r1))"
proof -
  let ?id = "substring (basePathOf options) 0 (lastIndexOf (basePathOf options) (CHR ''.''))"
  obtain r1 r2 r3 where
      r1: "forEachRoot fuel lib before 0 records options = Some (Inr r1)"
      and r3: "forEachRoot fuel lib after (Suc (length before)) r2 options = Some (Inr r3)"
      and w: "rehypeLyra fuel lib records options (Root (before @ Text v # after)) = Some (Inr r3)"
      and new: "\<lparr>type_r = None, content_r = v, id_r = ?id\<rparr> \<in> set r2
                \<or> strategyOf options = Merge \<and> isRecordMergeable ?id None r1"
    using root_text_visit [OF plain d, of lib records] by (elim exE conjE)
  from new show ?thesis
  proof
    assume "\<lparr>type_r = None, content_r = v, id_r = ?id\<rparr> \<in> set r2"
    then have "(None, ?id) \<in> (\<lambda>r. (type_r r, id_r r)) ` set r2"
      by force
    with forEachRoot_keeps_keys [OF r3] have "(None, ?id) \<in> (\<lambda>r. (type_r r, id_r r)) ` set r3"
      by (rule rev_subsetD [rotated])
    with w show ?thesis by blast
  next
    assume "strategyOf options = Merge \<and> isRecordMergeable ?id None r1"
    with w r1 show ?thesis by blast
  qed
qed

text \<open>
  C10. A text node directly under the root is visited with the path \<open>b root[i]\<close>, where
  \<open>b\<close> is the base path. Its parent path is \<open>b\<close> cut at the last dot of \<open>b\<close>,
  and the empty string when \<open>b\<close> has no dot, in particular without a base path. The
  walk of a root that holds one text node gives one record (two under both) with this
  id and the type \<^verbatim>\<open>undefined\<close>. In a document walked without a transform function,
  the visit of a top-level text node at any position pushes a record with this id,
  unless under merge the text is merged into the last record, and a record of this type
  and id is still there when the walk returns.
\<close>

theorem root_text_record_id:
  "parentPathOf (''root['' @ numToString i @ '']'') = []
   \<and> parentPathOf (b @ ''root['' @ numToString i @ '']'') = substring b 0 (lastIndexOf b (CHR ''.''))
   \<and> rehypeLyra (Suc fuel) lib [] options (Root [Text v]) =
       Some (Inr (if strategyOf options = Both
                  then [\<lparr>type_r = None, content_r = v,
                          id_r = substring (basePathOf options) 0
                                   (lastIndexOf (basePathOf options) (CHR ''.''))\<rparr>,
                        \<lparr>type_r = None, content_r = v,
                          id_r = substring (basePathOf options) 0
                                   (lastIndexOf (basePathOf options) (CHR ''.''))\<rparr>]
                  else [\<lparr>type_r = None, content_r = v,
                          id_r = substring (basePathOf options) 0
                                   (lastIndexOf (basePathOf options) (CHR ''.''))\<rparr>]))
   \<and> (transformFn options = None \<longrightarrow>
       depthRoot (Root (before @ Text v # after)) \<le> fuel \<longrightarrow>
       (\<exists>result.
          rehypeLyra fuel lib records options (Root (before @ Text v # after)) = Some (Inr result)
          \<and> ((None, substring (basePathOf options) 0
                       (lastIndexOf (basePathOf options) (CHR ''.'')))
                \<in> (\<lambda>r. (type_r r, id_r r)) ` set result
               \<or> strategyOf options = Merge
                 \<and> (\<exists>r1. forEachRoot fuel lib before 0 records options = Some (Inr r1)
                       \<and> isRecordMergeable
                             (substring (basePathOf options) 0
                                (lastIndexOf (basePathOf options) (CHR ''.''))) None r1))))
   \<and> (transformFn options = None \<longrightarrow>
       depthRoot (Root (before @ Text v # after)) \<le> fuel \<longrightarrow>
       (\<exists>r1 r2 r3.
          forEachRoot fuel lib before 0 records options = Some (Inr r1)
          \<and> addRecords v None (rootPath (basePathOf options) (length before)) r1
                (strategyOf options) = Inr r2
          \<and> forEachRoot fuel lib after (Suc (length before)) r2 options = Some (Inr r3)
          \<and> rehypeLyra fuel lib records options (Root (before @ Text v # after)) = Some (Inr r3)
          \<and> (\<lparr>type_r = None, content_r = v,
                id_r = substring (basePathOf options) 0
                         (lastIndexOf (basePathOf options) (CHR ''.''))\<rparr> \<in> set r2
               \<or> strategyOf options = Merge
                 \<and> isRecordMergeable
                       (substring (basePathOf options) 0
                          (lastIndexOf (basePathOf options) (CHR ''.''))) None r1)
          \<and> (\<forall>r \<in> set r2.
                id_r r = substring (basePathOf options) 0
                           (lastIndexOf (basePathOf options) (CHR ''.''))
                \<or> id_r r \<in> id_r ` set r1)))
   \<and> (\<exists>records'.
         addRecords v None (b @ ''root['' @ numToString i @ '']'') records s = Inr records'
         \<and> (\<lparr>type_r = None, content_r = v, id_r = substring b 0 (lastIndexOf b (CHR ''.''))\<rparr>
                \<in> set records'
              \<or> s = Merge
                \<and> isRecordMergeable (substring b 0 (lastIndexOf b (CHR ''.''))) None records)
         \<and> (\<forall>r \<in> set records'.
               id_r r = substring b 0 (lastIndexOf b (CHR ''.'')) \<or> id_r r \<in> id_r ` set records))"
proof (intro conjI impI)
  show "parentPathOf (''root['' @ numToString i @ '']'') = []"
    by (rule parentPath_root_no_base)
  show "parentPathOf (b @ ''root['' @ numToString i @ '']'') =
          substring b 0 (lastIndexOf b (CHR ''.''))"
    by (rule parentPath_root)
  show "rehypeLyra (Suc fuel) lib [] options (Root [Text v]) =
       Some (Inr (if strategyOf options = Both
                  then [\<lparr>type_r = None, content_r = v,
                          id_r = substring (basePathOf options) 0
                                   (lastIndexOf (basePathOf options) (CHR ''.''))\<rparr>,
                        \<lparr>type_r = None, content_r = v,
                          id_r = substring (basePathOf options) 0
                                   (lastIndexOf (basePathOf options) (CHR ''.''))\<rparr>]
                  else [\<lparr>type_r = None, content_r = v,
                          id_r = substring (basePathOf options) 0
                                   (lastIndexOf (basePathOf options) (CHR ''.''))\<rparr>]))"
    by (rule root_single_text_walk)
  show "\<exists>records'.
         addRecords v None (b @ ''root['' @ numToString i @ '']'') records s = Inr records'
         \<and> (\<lparr>type_r = None, content_r = v, id_r = substring b 0 (lastIndexOf b (CHR ''.''))\<rparr>
                \<in> set records'
              \<or> s = Merge
                \<and> isRecordMergeable (substring b 0 (lastIndexOf b (CHR ''.''))) None records)
         \<and> (\<forall>r \<in> set records'.
               id_r r = substring b 0 (lastIndexOf b (CHR ''.'')) \<or> id_r r \<in> id_r ` set records)"
    using addRecords_ids [of v None "b @ ''root['' @ numToString i @ '']''" records s]
    unfolding parentPath_root [of b i] .
next
  assume "transformFn options = None"
    and "depthRoot (Root (before @ Text v # after)) \<le> fuel"
  then show "\<exists>result.
          rehypeLyra fuel lib records options (Root (before @ Text v # after)) = Some (Inr result)
          \<and> ((None, substring (basePathOf options) 0
                       (lastIndexOf (basePathOf options) (CHR ''.'')))
                \<in> (\<lambda>r. (type_r r, id_r r)) ` set result
               \<or> strategyOf options = Merge
                 \<and> (\<exists>r1. forEachRoot fuel lib before 0 records options = Some (Inr r1)
                       \<and> isRecordMergeable
                             (substring (basePathOf options) 0
                                (lastIndexOf (basePathOf options) (CHR ''.''))) None r1))"
    by (rule root_text_walk)
next
  assume "transformFn options = None"
    and "depthRoot (Root (before @ Text v # after)) \<le> fuel"
  then show "\<exists>r1 r2 r3.
          forEachRoot fuel lib before 0 records options = Some (Inr r1)
          \<and> addRecords v None (rootPath (basePathOf options) (length before)) r1
                (strategyOf options) = Inr r2
          \<and> forEachRoot fuel lib after (Suc (length before)) r2 options = Some (Inr r3)
          \<and> rehypeLyra fuel lib records options (Root (before @ Text v # after)) = Some (Inr r3)
          \<and> (\<lparr>type_r = None, content_r = v,
                id_r = substring (basePathOf options) 0
                         (lastIndexOf (basePathOf options) (CHR ''.''))\<rparr> \<in> set r2
               \<or> strategyOf options = Merge
                 \<and> isRecordMergeable
                       (substring (basePathOf options) 0
                          (lastIndexOf (basePathOf options) (CHR ''.''))) None r1)
          \<and> (\<forall>r \<in> set r2.
                id_r r = substring (basePathOf options) 0
                           (lastIndexOf (basePathOf options) (CHR ''.''))
                \<or> id_r r \<in> id_r ` set r1)"
    by (rule root_text_visit)
qed

theorem root_text_record_id_witness:
  "rehypeLyra 1 exampleLib [] noOptions (Root [Text ''hi'']) =
     Some (Inr [\<lparr>type_r = None, content_r = ''hi'', id_r = []\<rparr>])
   \<and> rehypeLyra 1 exampleLib []
       \<lparr>transformFn = None, mergeStrategy = Some Both,
        basePath = Some ''tests/index.html/''\<rparr> (Root [Text ''hi'']) =
     Some (Inr [\<lparr>type_r = None, content_r = ''hi'', id_r = ''tests/index''\<rparr>,
                \<lparr>type_r = None, content_r = ''hi'', id_r = ''tests/index''\<rparr>])
   \<and> transformFn noOptions = None
   \<and> depthRoot rootTextPage \<le> 2
   \<and> rehypeLyra 2 exampleLib [] noOptions rootTextPage =
     Some (Inr [\<lparr>type_r = None, content_r = ''hi'', id_r = []\<rparr>,
                \<lparr>type_r = Some ''p'', content_r = ''A'', id_r = ''root[2]''\<rparr>])
   \<and> (None, []) \<in> (\<lambda>r. (type_r r, id_r r)) `
         set [\<lparr>type_r = None, content_r = ''hi'', id_r = []\<rparr>,
              \<lparr>type_r = Some ''p'', content_r = ''A'', id_r = ''root[2]''\<rparr>]
   \<and> parentPathOf ''root[1]'' = []
   \<and> parentPathOf ''tests/index.html/root[1]'' = ''tests/index''"
proof -
  let ?both = "\<lparr>transformFn = None, mergeStrategy = Some Both,
                basePath = Some ''tests/index.html/''\<rparr>"
  let ?hi = "\<lparr>type_r = None, content_r = ''hi'', id_r = []\<rparr>"
  let ?A = "\<lparr>type_r = Some ''p'', content_r = ''A'', id_r = ''root[2]''\<rparr>"
  have one: "(1 :: nat) = Suc 0" and n1: "numToString (Suc 0) = ''1''"
    by (simp_all add: numToString.simps digitChar_def)
  have w1: "rehypeLyra 1 exampleLib [] noOptions (Root [Text ''hi'']) = Some (Inr [?hi])"
    unfolding one
    using root_text_record_id [where fuel = 0 and lib = exampleLib and options = noOptions
        and v = "''hi''", THEN conjunct2, THEN conjunct2, THEN conjunct1]
    by (simp add: noOptions_def substring_def)
  have w2: "rehypeLyra 1 exampleLib [] ?both (Root [Text ''hi'']) =
     Some (Inr [\<lparr>type_r = None, content_r = ''hi'', id_r = ''tests/index''\<rparr>,
                \<lparr>type_r = None, content_r = ''hi'', id_r = ''tests/index''\<rparr>])"
    unfolding one
    using root_text_record_id [where fuel = 0 and lib = exampleLib and options = ?both
        and v = "''hi''", THEN conjunct2, THEN conjunct2, THEN conjunct1]
    by (simp add: substring_def)
  have h1: "transformFn noOptions = None" by (simp add: noOptions_def)
  have h2: "depthRoot rootTextPage \<le> 2" by (simp add: rootTextPage_def)
  have h2': "depthRoot (Root ([Doctype] @ Text ''hi'' # [Element ''p'' [] [Text ''A'']])) \<le> 2"
    using h2 by (simp add: rootTextPage_def)
  have ev: "rehypeLyra 2 exampleLib [] noOptions rootTextPage = Some (Inr [?hi, ?A])"
    by (simp add: run_simps rootTextPage_def eval_nat_numeral)
  have st: "strategyOf noOptions = Merge" and bp: "basePathOf noOptions = []"
    by (simp_all add: noOptions_def)
  have nm: "\<not> isRecordMergeable [] None []"
    by (simp add: isRecordMergeable_def)
  have pre: "forEachRoot 2 exampleLib [Doctype] 0 [] noOptions = Some (Inr [])"
    by (simp add: eval_nat_numeral)
  obtain result where
      r: "rehypeLyra 2 exampleLib [] noOptions
            (Root ([Doctype] @ Text ''hi'' # [Element ''p'' [] [Text ''A'']])) = Some (Inr result)"
      and k: "(None, substring (basePathOf noOptions) 0
                       (lastIndexOf (basePathOf noOptions) (CHR ''.'')))
                \<in> (\<lambda>r. (type_r r, id_r r)) ` set result
              \<or> strategyOf noOptions = Merge
                \<and> (\<exists>r1. forEachRoot 2 exampleLib [Doctype] 0 [] noOptions = Some (Inr r1)
                      \<and> isRecordMergeable
                            (substring (basePathOf noOptions) 0
                               (lastIndexOf (basePathOf noOptions) (CHR ''.''))) None r1)"
    using root_text_record_id [where fuel = 2 and lib = exampleLib and options = noOptions
        and v = "''hi''" and before = "[Doctype]" and after = "[Element ''p'' [] [Text ''A'']]"
        and records = "[]",
        THEN conjunct2, THEN conjunct2, THEN conjunct2, THEN conjunct1,
        THEN mp, OF h1, THEN mp, OF h2']
    by (elim exE conjE)
  have res: "result = [?hi, ?A]"
    using r ev by (simp add: rootTextPage_def)
  have key: "(None, []) \<in> (\<lambda>r. (type_r r, id_r r)) ` set [?hi, ?A]"
    using k nm unfolding res bp pre by (simp add: substring_def)
  have p1: "parentPathOf ''root[1]'' = []"
    using root_text_record_id [where i = "Suc 0", THEN conjunct1] by (simp add: n1)
  have p2: "parentPathOf ''tests/index.html/root[1]'' = ''tests/index''"
    using root_text_record_id [where i = "Suc 0" and b = "''tests/index.html/''",
        THEN conjunct2, THEN conjunct1]
    by (simp add: n1 substring_0)
  from w1 w2 h1 h2 ev key p1 p2 show ?thesis by blast
qed

end
